theory Spec2Isabelle
  imports Complex_Main "HOL-Library.Word" "HOL-Library.Sublist" "HOL-Library.AList"
    "HOL-Library.Monad_Syntax"
begin


section \<open>Strings\<close>

text \<open>
  A JavaScript string is a sequence of UTF-16 code units. Literals of the scripts are
  written with \<open>js\<close>, which maps each ASCII character to its code unit.
\<close>

type_synonym jstring = "16 word list"

definition js :: "string \<Rightarrow> jstring" where
  "js s = map of_char s"

text \<open>
  The class \<open>\s\<close> of a regular expression, which is also what \<open>String.prototype.trim\<close>
  strips: the white space and line terminator code points of ECMAScript.
\<close>

definition is_space :: "16 word \<Rightarrow> bool" where
  "is_space c \<longleftrightarrow>
     c \<in> set [0x09, 0x0A, 0x0B, 0x0C, 0x0D, 0x20, 0xA0, 0x1680, 0x2028, 0x2029,
               0x202F, 0x205F, 0x3000, 0xFEFF]
     \<or> (0x2000 \<le> c \<and> c \<le> 0x200A)"

text \<open>The class \<open>\w\<close>: ASCII letters, digits and the underscore.\<close>

definition is_word :: "16 word \<Rightarrow> bool" where
  "is_word c \<longleftrightarrow>
     (0x41 \<le> c \<and> c \<le> 0x5A) \<or> (0x61 \<le> c \<and> c \<le> 0x7A) \<or> (0x30 \<le> c \<and> c \<le> 0x39) \<or> c = 0x5F"

text \<open>\<open>s.includes(pat)\<close>: some position of \<open>s\<close> starts with \<open>pat\<close>.\<close>

fun str_includes :: "jstring \<Rightarrow> jstring \<Rightarrow> bool" where
  "str_includes [] pat = (pat = [])"
| "str_includes (c # cs) pat = (prefix pat (c # cs) \<or> str_includes cs pat)"

text \<open>\<open>s.endsWith(suf)\<close>.\<close>

definition endsWith :: "jstring \<Rightarrow> jstring \<Rightarrow> bool" where
  "endsWith s suf = suffix suf s"

text \<open>
  \<open>s.replace(/pat/g, rep)\<close> for a pattern that is a literal text and a replacement
  without \<open>$\<close>: the matches are found from left to right, each search resuming behind
  the previous match. (The scripts use it with non-empty patterns only.)
\<close>

fun replace_all :: "jstring \<Rightarrow> jstring \<Rightarrow> jstring \<Rightarrow> jstring" where
  "replace_all pat rep [] = []"
| "replace_all pat rep (c # cs) =
     (if pat \<noteq> [] \<and> prefix pat (c # cs)
      then rep @ replace_all pat rep (drop (length pat - 1) cs)
      else c # replace_all pat rep cs)"

text \<open>
  \<open>s.replace(pat, rep)\<close> for a string pattern and a replacement without \<open>$\<close>: only the
  first occurrence is replaced.
\<close>

fun replace_first :: "jstring \<Rightarrow> jstring \<Rightarrow> jstring \<Rightarrow> jstring" where
  "replace_first pat rep [] = (if pat = [] then rep else [])"
| "replace_first pat rep (c # cs) =
     (if prefix pat (c # cs) then rep @ drop (length pat) (c # cs)
      else c # replace_first pat rep cs)"

section \<open>The file system\<close>

text \<open>
  The project directory is a tree; a directory lists its entries in the order in which
  \<open>readdirSync\<close> returns them. A path is the list of its segments below the working
  directory, against which the scripts resolve every path. The functions below are the
  calls of \<open>node:fs\<close> that the scripts use; \<open>None\<close> is a call that throws.
\<close>

datatype node = File jstring | Dir "(jstring \<times> node) list"

type_synonym path = "jstring list"

fun lookup :: "node \<Rightarrow> path \<Rightarrow> node option" where
  "lookup n [] = Some n"
| "lookup (File c) (x # xs) = None"
| "lookup (Dir es) (x # xs) = (case map_of es x of None \<Rightarrow> None | Some n \<Rightarrow> lookup n xs)"

definition existsSync :: "node \<Rightarrow> path \<Rightarrow> bool" where
  "existsSync t p \<longleftrightarrow> lookup t p \<noteq> None"

definition isDirectory :: "node \<Rightarrow> path \<Rightarrow> bool" where
  "isDirectory t p = (case lookup t p of Some (Dir es) \<Rightarrow> True | _ \<Rightarrow> False)"

definition readFileSync :: "node \<Rightarrow> path \<Rightarrow> jstring option" where
  "readFileSync t p = (case lookup t p of Some (File c) \<Rightarrow> Some c | _ \<Rightarrow> None)"

definition readdirSync :: "node \<Rightarrow> path \<Rightarrow> jstring list option" where
  "readdirSync t p = (case lookup t p of Some (Dir es) \<Rightarrow> Some (map fst es) | _ \<Rightarrow> None)"

text \<open>
  \<open>writeFileSync\<close> creates or overwrites a file; it throws when the path is a directory
  or when the parent directory is missing.
\<close>

fun writeFileSync :: "node \<Rightarrow> path \<Rightarrow> jstring \<Rightarrow> node option" where
  "writeFileSync (File old) [] c = Some (File c)"
| "writeFileSync (Dir es) [] c = None"
| "writeFileSync (File old) (x # xs) c = None"
| "writeFileSync (Dir es) (x # xs) c =
     (case map_of es x of
        None \<Rightarrow> (if xs = [] then Some (Dir (es @ [(x, File c)])) else None)
      | Some n \<Rightarrow> (case writeFileSync n xs c of
                    None \<Rightarrow> None
                  | Some n' \<Rightarrow> Some (Dir (AList.update x n' es))))"

section \<open>The converter\<close>

definition outputDir :: path where
  "outputDir = [js ''output'']"

definition jsOutputDir :: path where
  "jsOutputDir = outputDir @ [js ''js'']"

subsection \<open>\<open>updateFileReferences\<close>\<close>

definition filesToUpdate :: "path list" where
  "filesToUpdate = [jsOutputDir @ [js ''app.jsx''], jsOutputDir @ [js ''ssr.jsx'']]"

text \<open>The rewrite of one file's content: \<open>content.replace(/\.tsx/g, '.jsx')\<close>.\<close>

definition rewrite_references :: "jstring \<Rightarrow> jstring" where
  "rewrite_references content = replace_all (js ''.tsx'') (js ''.jsx'') content"

text \<open>
  The body of the loop. An error of the read or of the write is caught and logged, and
  the file is left as it is.
\<close>

definition updateReferencesIn :: "node \<Rightarrow> path \<Rightarrow> node" where
  "updateReferencesIn t file =
     (if existsSync t file then
        (case readFileSync t file of
           None \<Rightarrow> t
         | Some content \<Rightarrow>
             (case writeFileSync t file (rewrite_references content) of
                None \<Rightarrow> t
              | Some t' \<Rightarrow> t'))
      else t)"

definition updateFileReferences :: "node \<Rightarrow> node" where
  "updateFileReferences t = foldl updateReferencesIn t filesToUpdate"

subsection \<open>\<open>updateOutputEslintConfig\<close>\<close>

text \<open>\<open>item.trim()\<close>, \<open>list.split(',')\<close> and \<open>items.join(', ')\<close>.\<close>

definition trim :: "jstring \<Rightarrow> jstring" where
  "trim s = rev (dropWhile is_space (rev (dropWhile is_space s)))"

fun split_on :: "16 word \<Rightarrow> jstring \<Rightarrow> jstring list" where
  "split_on sep [] = [[]]"
| "split_on sep (c # cs) =
     (if c = sep then [] # split_on sep cs
      else (case split_on sep cs of [] \<Rightarrow> [[c]] | w # ws \<Rightarrow> (c # w) # ws))"

fun join :: "jstring \<Rightarrow> jstring list \<Rightarrow> jstring" where
  "join sep [] = []"
| "join sep [x] = x"
| "join sep (x # y # ys) = x @ sep @ join sep (y # ys)"

text \<open>The two quote characters of the patterns below.\<close>

definition squote :: "16 word" where "squote = 0x27"

definition dquote :: "16 word" where "dquote = 0x22"

text \<open>
  The predicate of the \<open>filter\<close>: the item is not empty and contains none of
  \<open>'output'\<close>, \<open>"output"\<close>, \<open>'output/\<close> and \<open>"output/\<close>.
\<close>

definition keep_ignore :: "jstring \<Rightarrow> bool" where
  "keep_ignore item \<longleftrightarrow>
     item \<noteq> [] \<and>
     \<not> str_includes item (squote # js ''output'' @ [squote]) \<and>
     \<not> str_includes item (dquote # js ''output'' @ [dquote]) \<and>
     \<not> str_includes item (squote # js ''output/'') \<and>
     \<not> str_includes item (dquote # js ''output/'')"

text \<open>The new text of the list, computed from the text between the brackets.\<close>

definition newIgnores :: "jstring \<Rightarrow> jstring" where
  "newIgnores ignoresList =
     join (js '', '') (filter keep_ignore (map trim (split_on 0x2C ignoresList)))"

text \<open>
  A match of \<open>/ignores:\s*\[([^\]]*)]/\<close> at the start of \<open>s\<close>: the text of the group
  and the text behind the match. After \<open>ignores:\<close> the white space is skipped, a \<open>[\<close>
  must follow, and the group runs up to the first \<open>]\<close>, which must exist.
\<close>

definition match_ignores :: "jstring \<Rightarrow> (jstring \<times> jstring) option" where
  "match_ignores s =
     (if prefix (js ''ignores:'') s then
        (case dropWhile is_space (drop (length (js ''ignores:'')) s) of
           [] \<Rightarrow> None
         | c # r \<Rightarrow>
             if c = 0x5B then
               (case dropWhile (\<lambda>c. c \<noteq> 0x5D) r of
                  [] \<Rightarrow> None
                | d # rest \<Rightarrow> Some (takeWhile (\<lambda>c. c \<noteq> 0x5D) r, rest))
             else None)
      else None)"

text \<open>
  \<open>content.replace(/ignores:\s*\[([^\]]*)]/, f)\<close>: the expression has no flag \<open>g\<close>, so
  the leftmost match is replaced by what the function \<open>f\<close> returns for it, and the text
  around it stays.
\<close>

fun rewrite_ignores :: "jstring \<Rightarrow> jstring" where
  "rewrite_ignores [] = []"
| "rewrite_ignores (c # cs) =
     (case match_ignores (c # cs) of
        Some (ignoresList, rest) \<Rightarrow> js ''ignores: ['' @ newIgnores ignoresList @ js '']'' @ rest
      | None \<Rightarrow> c # rewrite_ignores cs)"

text \<open>
  Where the expression matches first: the text before the match, the text of the group
  and the text behind the match. This is the \<open>ignores\<close> array literal that the rewrite
  locates.
\<close>

fun exec_ignores :: "jstring \<Rightarrow> (jstring \<times> jstring \<times> jstring) option" where
  "exec_ignores [] = None"
| "exec_ignores (c # cs) =
     (case match_ignores (c # cs) of
        Some (ignoresList, rest) \<Rightarrow> Some ([], ignoresList, rest)
      | None \<Rightarrow> map_option (\<lambda>(before, l, r). (c # before, l, r)) (exec_ignores cs))"

text \<open>
  The words of the specification, written without looking at how the rewrite works. The
  entries of an array literal are its elements: the text between the brackets is cut at
  the commas that are outside a string literal (\<open>literal_elements\<close> carries the open quote
  and the element read so far), and the white space around an element does not belong to
  it. An entry references the staging directory when a segment of the path that it
  holds is the name \<open>output\<close>.
\<close>

fun literal_elements :: "16 word option \<Rightarrow> jstring \<Rightarrow> jstring \<Rightarrow> jstring list" where
  "literal_elements q cur [] = [rev cur]"
| "literal_elements None cur (c # cs) =
     (if c = 0x2C then rev cur # literal_elements None [] cs
      else if c = 0x27 \<or> c = 0x22 then literal_elements (Some c) (c # cur) cs
      else literal_elements None (c # cur) cs)"
| "literal_elements (Some q) cur (c # cs) =
     literal_elements (if c = q then None else Some q) (c # cur) cs"

definition array_entries :: "jstring \<Rightarrow> jstring list" where
  "array_entries l = filter (\<lambda>e. e \<noteq> []) (map trim (literal_elements None [] l))"

definition unquoted :: "jstring \<Rightarrow> jstring" where
  "unquoted e =
     (case e of
        [] \<Rightarrow> []
      | q # r \<Rightarrow> if (q = 0x27 \<or> q = 0x22) \<and> r \<noteq> [] \<and> last r = q then butlast r else e)"

definition names_output :: "jstring \<Rightarrow> bool" where
  "names_output e \<longleftrightarrow> js ''output'' \<in> set (split_on 0x2F (unquoted e))"

definition eslintConfig :: path where
  "eslintConfig = outputDir @ [js ''eslint.config.js'']"

text \<open>The method; no error is caught in it, so a failing read or write ends the run.\<close>

definition updateOutputEslintConfig :: "node \<Rightarrow> node option" where
  "updateOutputEslintConfig t =
     (if existsSync t eslintConfig then
        (case readFileSync t eslintConfig of
           None \<Rightarrow> None
         | Some content \<Rightarrow> writeFileSync t eslintConfig (rewrite_ignores content))
      else Some t)"

subsection \<open>The package metadata\<close>

text \<open>
  The values that \<open>JSON.parse\<close> returns. An object lists its properties in their order;
  \<open>JSON.parse\<close> and \<open>JSON.stringify\<close> themselves belong to the runtime and are
  parameters of the run.
\<close>

datatype json = JNull | JBool bool | JNum rat | JStr jstring | JArr "json list"
  | JObj "(jstring \<times> json) list"

text \<open>What a condition \<open>if (v)\<close> or \<open>v && ...\<close> makes of a value.\<close>

fun truthy :: "json \<Rightarrow> bool" where
  "truthy JNull = False"
| "truthy (JBool b) = b"
| "truthy (JNum n) = (n \<noteq> 0)"
| "truthy (JStr s) = (s \<noteq> [])"
| "truthy (JArr xs) = True"
| "truthy (JObj es) = True"

text \<open>
  Reading, assigning and deleting an own property. A read of a property that is not
  there gives \<open>undefined\<close>, here \<open>None\<close>; the same holds for a value that is not an
  object, and for an array, whose properties are its indices. A \<open>delete\<close> on such a
  value does nothing.
\<close>

fun get_prop :: "json \<Rightarrow> jstring \<Rightarrow> json option" where
  "get_prop (JObj es) k = map_of es k"
| "get_prop v k = None"

fun set_prop :: "json \<Rightarrow> jstring \<Rightarrow> json \<Rightarrow> json" where
  "set_prop (JObj es) k v = JObj (AList.update k v es)"
| "set_prop w k v = w"

fun delete_prop :: "json \<Rightarrow> jstring \<Rightarrow> json" where
  "delete_prop (JObj es) k = JObj (AList.delete k es)"
| "delete_prop w k = w"

text \<open>
  \<open>if (packageJson.name && packageJson.name.includes('react-starter-kit'))
  packageJson.name = packageJson.name.replace('react-starter-kit', 'react-jsx-starter-kit')\<close>.
  On a number, \<open>true\<close> or an object there is no method \<open>includes\<close>, and the call
  throws a \<open>TypeError\<close>; an array has \<open>includes\<close> but no \<open>replace\<close>.
\<close>

definition update_name :: "json \<Rightarrow> json option" where
  "update_name packageJson =
     (case get_prop packageJson (js ''name'') of
        None \<Rightarrow> Some packageJson
      | Some name \<Rightarrow>
          if truthy name then
            (case name of
               JStr s \<Rightarrow>
                 if str_includes s (js ''react-starter-kit'')
                 then Some (set_prop packageJson (js ''name'')
                        (JStr (replace_first (js ''react-starter-kit'') (js ''react-jsx-starter-kit'') s)))
                 else Some packageJson
             | JArr xs \<Rightarrow>
                 if JStr (js ''react-starter-kit'') \<in> set xs then None else Some packageJson
             | _ \<Rightarrow> None)
          else Some packageJson)"

text \<open>
  \<open>if (packageJson.description) packageJson.description =
  packageJson.description.replace('TypeScript', 'JavaScript/JSX')\<close>.
\<close>

definition update_description :: "json \<Rightarrow> json option" where
  "update_description packageJson =
     (case get_prop packageJson (js ''description'') of
        None \<Rightarrow> Some packageJson
      | Some description \<Rightarrow>
          if truthy description then
            (case description of
               JStr s \<Rightarrow> Some (set_prop packageJson (js ''description'')
                           (JStr (replace_first (js ''TypeScript'') (js ''JavaScript/JSX'') s)))
             | _ \<Rightarrow> None)
          else Some packageJson)"

text \<open>The four \<open>delete packageJson.devDependencies[...]\<close>.\<close>

definition typescript_dependencies :: "jstring list" where
  "typescript_dependencies =
     [js ''typescript'', js ''@types/node'', js ''@types/react'', js ''@types/react-dom'']"

definition remove_dependencies :: "json \<Rightarrow> json" where
  "remove_dependencies packageJson =
     (case get_prop packageJson (js ''devDependencies'') of
        None \<Rightarrow> packageJson
      | Some devDependencies \<Rightarrow>
          if truthy devDependencies then
            set_prop packageJson (js ''devDependencies'')
              (foldl delete_prop devDependencies typescript_dependencies)
          else packageJson)"

text \<open>
  The three steps on the parsed object; \<open>None\<close> is a \<open>TypeError\<close>. Reading a
  property of \<open>null\<close> throws it at once.
\<close>

definition updatePackageJson :: "json \<Rightarrow> json option" where
  "updatePackageJson packageJson =
     (case packageJson of
        JNull \<Rightarrow> None
      | _ \<Rightarrow>
         (case update_name packageJson of
            None \<Rightarrow> None
          | Some p1 \<Rightarrow>
             (case update_description p1 of
                None \<Rightarrow> None
              | Some p2 \<Rightarrow> Some (remove_dependencies p2))))"

text \<open>The vocabulary of the specification: an entry of the \<open>devDependencies\<close> map.\<close>

definition devDependency :: "json \<Rightarrow> jstring \<Rightarrow> json option" where
  "devDependency packageJson k =
     (case get_prop packageJson (js ''devDependencies'') of
        Some (JObj ds) \<Rightarrow> map_of ds k
      | _ \<Rightarrow> None)"

text \<open>
  A package file as its format has it: an object whose \<open>name\<close> and \<open>description\<close>, when
  present, are strings.
\<close>

definition well_typed_package :: "json \<Rightarrow> bool" where
  "well_typed_package packageJson \<longleftrightarrow>
     (\<exists>es. packageJson = JObj es) \<and>
     (case get_prop packageJson (js ''name'') of None \<Rightarrow> True | Some (JStr s) \<Rightarrow> True | _ \<Rightarrow> False) \<and>
     (case get_prop packageJson (js ''description'') of None \<Rightarrow> True | Some (JStr s) \<Rightarrow> True | _ \<Rightarrow> False)"

text \<open>A package file on which the rewrite is run below.\<close>

definition example_package :: json where
  "example_package = JObj
     [(js ''name'', JStr (js ''vendor/react-starter-kit'')),
      (js ''description'', JStr (js ''A TypeScript kit'')),
      (js ''devDependencies'', JObj [(js ''vite'', JStr (js ''7'')), (js ''typescript'', JStr (js ''5''))])]"

text \<open>A package file that lists the four packages and two others.\<close>

definition typed_package :: json where
  "typed_package = JObj
     [(js ''name'', JStr (js ''vendor/react-starter-kit'')),
      (js ''devDependencies'', JObj
        [(js ''@types/node'', JStr (js ''22'')),
         (js ''@types/lodash'', JStr (js ''4'')),
         (js ''@types/react'', JStr (js ''19'')),
         (js ''vite'', JStr (js ''7'')),
         (js ''@types/react-dom'', JStr (js ''19'')),
         (js ''typescript'', JStr (js ''5''))])]"

subsection \<open>The bundler configuration\<close>

text \<open>
  \<open>s.replace(re, rep)\<close> for an expression with the flag \<open>g\<close> and a replacement without
  \<open>$\<close>. The expression is given by what it matches at the start of a text: the length of
  the match, which is at least one for the expressions of the scripts. The search goes
  from left to right and resumes behind each match.
\<close>

fun replace_regex :: "(jstring \<Rightarrow> nat option) \<Rightarrow> jstring \<Rightarrow> jstring \<Rightarrow> jstring" where
  "replace_regex m rep [] = []"
| "replace_regex m rep (c # cs) =
     (case m (c # cs) of
        Some n \<Rightarrow> rep @ replace_regex m rep (drop (n - 1) cs)
      | None \<Rightarrow> c # replace_regex m rep cs)"

text \<open>\<open>\s+\<close> before a text that does not start with white space: what is left behind it.\<close>

definition spaces_then :: "jstring \<Rightarrow> jstring option" where
  "spaces_then s = (case s of [] \<Rightarrow> None | c # cs \<Rightarrow> if is_space c then Some (dropWhile is_space cs) else None)"

text \<open>
  \<open>/import\s+type\s+[^;]+;/\<close>. Behind \<open>type\<close> the text up to the first \<open>;\<close> must start
  with white space and have one more character, and the \<open>;\<close> must exist.
\<close>

definition match_import_type :: "jstring \<Rightarrow> nat option" where
  "match_import_type s =
     (if prefix (js ''import'') s then
        (case spaces_then (drop (length (js ''import'')) s) of
           None \<Rightarrow> None
         | Some r \<Rightarrow>
             if prefix (js ''type'') r then
               (let r' = drop (length (js ''type'')) r;
                    body = takeWhile (\<lambda>c. c \<noteq> 0x3B) r';
                    rest = dropWhile (\<lambda>c. c \<noteq> 0x3B) r'
                in case body of
                     [] \<Rightarrow> None
                   | b # bs \<Rightarrow>
                       if is_space b \<and> bs \<noteq> [] \<and> rest \<noteq> []
                       then Some (length s - length (tl rest)) else None)
             else None)
      else None)"

text \<open>
  \<open>/import\s*\{[^}]*type[^}]*\}\s*from\s*[''][^'']+['']/\<close>. The text between the braces
  runs up to the first \<open>}\<close> and contains \<open>type\<close>; the module name is in single quotes
  and not empty.
\<close>

definition match_import_braces_type :: "jstring \<Rightarrow> nat option" where
  "match_import_braces_type s =
     (if prefix (js ''import'') s then
        (case dropWhile is_space (drop (length (js ''import'')) s) of
           [] \<Rightarrow> None
         | c # r \<Rightarrow>
             if c = 0x7B then
               (let names = takeWhile (\<lambda>c. c \<noteq> 0x7D) r;
                    r1 = dropWhile is_space (drop 1 (dropWhile (\<lambda>c. c \<noteq> 0x7D) r))
                in if dropWhile (\<lambda>c. c \<noteq> 0x7D) r \<noteq> [] \<and> str_includes names (js ''type'')
                      \<and> prefix (js ''from'') r1 then
                     (case dropWhile is_space (drop (length (js ''from'')) r1) of
                        [] \<Rightarrow> None
                      | q # r2 \<Rightarrow>
                          if q = squote \<and> takeWhile (\<lambda>c. c \<noteq> squote) r2 \<noteq> []
                             \<and> dropWhile (\<lambda>c. c \<noteq> squote) r2 \<noteq> []
                          then Some (length s - length (tl (dropWhile (\<lambda>c. c \<noteq> squote) r2)))
                          else None)
                   else None)
             else None)
      else None)"

text \<open>
  \<open>/^\s*\n/gm\<close>. With the flag \<open>m\<close>, \<open>^\<close> holds at the start of the text and behind a
  line terminator. The white space of \<open>\s*\<close> includes line feeds, so a match runs up to
  the last line feed of the white space that starts the line. \<open>remove_blank_lines bol s\<close>
  is the replacement by the empty text, \<open>bol\<close> telling whether \<open>^\<close> holds at the start of
  \<open>s\<close>.
\<close>

definition is_line_terminator :: "16 word \<Rightarrow> bool" where
  "is_line_terminator c \<longleftrightarrow> c \<in> set [0x0A, 0x0D, 0x2028, 0x2029]"

definition match_blank_line :: "jstring \<Rightarrow> nat option" where
  "match_blank_line s =
     (let ws = takeWhile is_space s
      in if 0x0A \<in> set ws then Some (length ws - length (takeWhile (\<lambda>c. c \<noteq> 0x0A) (rev ws)))
         else None)"

fun remove_blank_lines :: "bool \<Rightarrow> jstring \<Rightarrow> jstring" where
  "remove_blank_lines bol [] = []"
| "remove_blank_lines bol (c # cs) =
     (case (if bol then match_blank_line (c # cs) else None) of
        Some n \<Rightarrow> remove_blank_lines True (drop (n - 1) cs)
      | None \<Rightarrow> c # remove_blank_lines (is_line_terminator c) cs)"

text \<open>
  \<open>/(import\s+\{[^}]*\}\s+from\s+['"]node:path['"];?)/\<close>, and the replacement of its
  first match by \<open>$1\<close> followed by a text.
\<close>

definition match_node_path_import :: "jstring \<Rightarrow> nat option" where
  "match_node_path_import s =
     (if prefix (js ''import'') s then
        (case spaces_then (drop (length (js ''import'')) s) of
           None \<Rightarrow> None
         | Some r \<Rightarrow>
            (case r of
               [] \<Rightarrow> None
             | c # r1 \<Rightarrow>
                 if c = 0x7B \<and> dropWhile (\<lambda>c. c \<noteq> 0x7D) r1 \<noteq> [] then
                   (case spaces_then (drop 1 (dropWhile (\<lambda>c. c \<noteq> 0x7D) r1)) of
                      None \<Rightarrow> None
                    | Some r2 \<Rightarrow>
                        if prefix (js ''from'') r2 then
                          (case spaces_then (drop (length (js ''from'')) r2) of
                             None \<Rightarrow> None
                           | Some r3 \<Rightarrow>
                              (case r3 of
                                 [] \<Rightarrow> None
                               | q # r4 \<Rightarrow>
                                   if (q = squote \<or> q = dquote) \<and> prefix (js ''node:path'') r4 then
                                     (case drop (length (js ''node:path'')) r4 of
                                        [] \<Rightarrow> None
                                      | q' # r5 \<Rightarrow>
                                          if q' = squote \<or> q' = dquote then
                                            Some (length s - length (case r5 of
                                                     [] \<Rightarrow> []
                                                   | d # r6 \<Rightarrow> if d = 0x3B then r6 else d # r6))
                                          else None)
                                   else None))
                        else None)
                 else None))
      else None)"

fun insert_behind_first :: "(jstring \<Rightarrow> nat option) \<Rightarrow> jstring \<Rightarrow> jstring \<Rightarrow> jstring" where
  "insert_behind_first m text [] = []"
| "insert_behind_first m text (c # cs) =
     (case m (c # cs) of
        Some n \<Rightarrow> take n (c # cs) @ text @ drop n (c # cs)
      | None \<Rightarrow> c # insert_behind_first m text cs)"

text \<open>
  The conversion of the content of \<open>vite.config.ts\<close> in \<open>run\<close>: the two kinds of type
  imports are removed, the two entry paths are retargeted, the blank lines are removed,
  and when \<open>__dirname\<close> occurs it is replaced, the import of \<open>fileURLToPath\<close> being added
  behind the import of \<open>node:path\<close> unless \<open>fileURLToPath\<close> occurs already.
\<close>

definition convert_vite_config :: "jstring \<Rightarrow> jstring" where
  \<open>convert_vite_config content =
     (let c1 = replace_regex match_import_type [] content;
          c2 = replace_regex match_import_braces_type [] c1;
          c3 = replace_all (js ''resources/js/app.tsx'') (js ''resources/js/app.jsx'') c2;
          c4 = replace_all (js ''resources/js/ssr.tsx'') (js ''resources/js/ssr.jsx'') c3;
          c5 = remove_blank_lines True c4
      in if str_includes c5 (js ''__dirname'') then
           (let c6 = (if \<not> str_includes c5 (js ''fileURLToPath'')
                      then insert_behind_first match_node_path_import
                             (js ''\<newline>import { fileURLToPath, URL } from 'node:url';'') c5
                      else c5)
            in replace_all (js ''__dirname'') (js ''fileURLToPath(new URL('.', import.meta.url))'') c6)
         else c5)\<close>

text \<open>
  Where a pattern matches, and when a content is settled: none of the patterns of its
  rewrite matches in it any more.
\<close>

fun matches_somewhere :: "(jstring \<Rightarrow> nat option) \<Rightarrow> jstring \<Rightarrow> bool" where
  "matches_somewhere m [] = False"
| "matches_somewhere m (c # cs) = (m (c # cs) \<noteq> None \<or> matches_somewhere m cs)"

fun has_blank_line :: "bool \<Rightarrow> jstring \<Rightarrow> bool" where
  "has_blank_line bol [] = False"
| "has_blank_line bol (c # cs) =
     ((bol \<and> match_blank_line (c # cs) \<noteq> None) \<or> has_blank_line (is_line_terminator c) cs)"

definition settled_vite_config :: "jstring \<Rightarrow> bool" where
  "settled_vite_config c \<longleftrightarrow>
     \<not> matches_somewhere match_import_type c \<and>
     \<not> matches_somewhere match_import_braces_type c \<and>
     \<not> str_includes c (js ''resources/js/app.tsx'') \<and>
     \<not> str_includes c (js ''resources/js/ssr.tsx'') \<and>
     \<not> has_blank_line True c \<and>
     \<not> str_includes c (js ''__dirname'')"

definition settled_package :: "json \<Rightarrow> bool" where
  "settled_package p \<longleftrightarrow>
     (case get_prop p (js ''name'') of
        Some (JStr s) \<Rightarrow> \<not> str_includes s (js ''react-starter-kit'') | _ \<Rightarrow> True) \<and>
     (case get_prop p (js ''description'') of
        Some (JStr s) \<Rightarrow> \<not> str_includes s (js ''TypeScript'') | _ \<Rightarrow> True)"

text \<open>
  Two texts are comparable when one of them starts with the other. \<open>q\<close> and a replacement
  are apart when no end of the replacement is comparable with \<open>q\<close> and no end of \<open>q\<close>
  behind its first character is comparable with the replacement.
\<close>

definition apart :: "jstring \<Rightarrow> jstring \<Rightarrow> bool" where
  "apart q rep \<longleftrightarrow>
     q \<noteq> [] \<and>
     list_all (\<lambda>k. \<not> prefix q (drop k rep) \<and> \<not> prefix (drop k rep) q) [0..<length rep] \<and>
     list_all (\<lambda>k. \<not> prefix (drop k q) rep \<and> \<not> prefix rep (drop k q)) [1..<length q]"

text \<open>A bundler configuration on which the conversion is run below.\<close>

definition example_vite_config :: jstring where
  \<open>example_vite_config =
     js ''import type X;\<newline>import { a } from 'node:path';\<newline>\<newline>x(__dirname);\<newline>''\<close>

subsection \<open>The environment\<close>

text \<open>
  What a run takes from outside the scripts. \<open>execSync e cmd t\<close> runs a command on the
  project tree \<open>t\<close>: it gives the output of the command, or \<open>None\<close> when \<open>execSync\<close> throws
  (the command exits with a status other than zero or cannot be started), and the tree
  that the command leaves. \<open>path_resolve\<close> is \<open>path.resolve\<close>, the absolute name of a
  path below the working directory; \<open>JSON_parse\<close> gives \<open>None\<close> for a \<open>SyntaxError\<close>;
  \<open>toISOString\<close> is the time stamp \<open>new Date().toISOString()\<close>.
\<close>

record env =
  execSync :: "jstring \<Rightarrow> node \<Rightarrow> jstring option \<times> node"
  path_resolve :: "path \<Rightarrow> jstring"
  JSON_parse :: "jstring \<Rightarrow> json option"
  JSON_stringify :: "json \<Rightarrow> nat \<Rightarrow> jstring"
  toISOString :: jstring

subsection \<open>\<open>convertTypeScriptFiles\<close>\<close>

definition tsconfigPath :: path where
  "tsconfigPath = [js ''tsconfig.temp.json'']"

definition tsc_command :: "env \<Rightarrow> jstring" where
  \<open>tsc_command e =
     js ''npx tsc -p "'' @ path_resolve e tsconfigPath @ js ''" --noEmitOnError false --skipLibCheck''\<close>

definition tsc_retry_command :: "env \<Rightarrow> jstring" where
  \<open>tsc_retry_command e =
     js ''npx tsc -p "'' @ path_resolve e tsconfigPath
       @ js ''" --noEmitOnError false --skipLibCheck --noImplicitAny false''\<close>

text \<open>
  \<open>fs.existsSync(this.jsOutputDir) && fs.readdirSync(this.jsOutputDir).length > 0\<close>;
  \<open>readdirSync\<close> throws on a path that is not a directory.
\<close>

definition outputExists :: "node \<Rightarrow> bool option" where
  "outputExists t =
     (if existsSync t jsOutputDir then
        (case readdirSync t jsOutputDir of
           None \<Rightarrow> None
         | Some items \<Rightarrow> Some (length items > 0))
      else Some False)"

text \<open>
  The method returns its boolean, or \<open>None\<close> when \<open>readdirSync\<close> throws in a handler.
  With it come the tree that the compiler left and, for the count of the invocations,
  the commands that were run.
\<close>

definition convertTypeScriptFiles :: "env \<Rightarrow> node \<Rightarrow> bool option \<times> node \<times> jstring list" where
  "convertTypeScriptFiles e t =
     (case execSync e (tsc_command e) t of
        (Some out, t1) \<Rightarrow> (Some True, t1, [tsc_command e])
      | (None, t1) \<Rightarrow>
          (case outputExists t1 of
             None \<Rightarrow> (None, t1, [tsc_command e])
           | Some True \<Rightarrow> (Some True, t1, [tsc_command e])
           | Some False \<Rightarrow>
               (case execSync e (tsc_retry_command e) t1 of
                  (Some out, t2) \<Rightarrow> (Some True, t2, [tsc_command e, tsc_retry_command e])
                | (None, t2) \<Rightarrow>
                    (case outputExists t2 of
                       None \<Rightarrow> (None, t2, [tsc_command e, tsc_retry_command e])
                     | Some True \<Rightarrow> (Some True, t2, [tsc_command e, tsc_retry_command e])
                     | Some False \<Rightarrow> (Some False, t2, [tsc_command e, tsc_retry_command e])))))"

text \<open>
  The vocabulary of the specification: the output directory is absent or empty, and it
  is a directory that is not empty.
\<close>

definition output_missing :: "node \<Rightarrow> bool" where
  "output_missing t \<longleftrightarrow> lookup t jsOutputDir = None \<or> lookup t jsOutputDir = Some (Dir [])"

definition output_present :: "node \<Rightarrow> bool" where
  "output_present t = (case lookup t jsOutputDir of Some (Dir (x # xs)) \<Rightarrow> True | _ \<Rightarrow> False)"

text \<open>
  Three compilers for the examples below: one that succeeds, one that fails and emits
  nothing, and one that fails both times but emits a file in the retry.
\<close>

definition example_env :: "(jstring \<Rightarrow> node \<Rightarrow> jstring option \<times> node) \<Rightarrow> env" where
  "example_env exec = \<lparr>execSync = exec, path_resolve = (\<lambda>p. join (js ''/'') (js ''/project'' # p)),
     JSON_parse = (\<lambda>s. None), JSON_stringify = (\<lambda>v n. js ''{}''), toISOString = js ''2025''\<rparr>"

definition compiler_succeeds :: "jstring \<Rightarrow> node \<Rightarrow> jstring option \<times> node" where
  "compiler_succeeds cmd t = (Some [], t)"

definition compiler_fails :: "jstring \<Rightarrow> node \<Rightarrow> jstring option \<times> node" where
  "compiler_fails cmd t = (None, t)"

definition compiler_emits_in_retry :: "jstring \<Rightarrow> node \<Rightarrow> jstring option \<times> node" where
  "compiler_emits_in_retry cmd t =
     (None, if str_includes cmd (js ''--noImplicitAny'')
            then Dir [(js ''output'', Dir [(js ''js'', Dir [(js ''app.js'', File [])])])]
            else t)"


subsection \<open>More of the file system\<close>

text \<open>
  \<open>fs.rmSync(p, { recursive: true, force: true })\<close> removes a file or a whole
  directory and does nothing when the path is missing.
\<close>

fun rm_rf :: "node \<Rightarrow> path \<Rightarrow> node" where
  "rm_rf n [] = n"
| "rm_rf (File c) (x # xs) = File c"
| "rm_rf (Dir es) (x # xs) =
     (if xs = [] then Dir (AList.delete x es)
      else (case map_of es x of
              None \<Rightarrow> Dir es
            | Some n \<Rightarrow> Dir (AList.update x (rm_rf n xs) es)))"

text \<open>\<open>fs.rmSync(p)\<close> without options removes a file; it throws on a directory and on a missing path.\<close>

definition rmSync :: "node \<Rightarrow> path \<Rightarrow> node option" where
  "rmSync t p = (case lookup t p of Some (File c) \<Rightarrow> Some (rm_rf t p) | _ \<Rightarrow> None)"

text \<open>
  \<open>fs.mkdirSync(p, { recursive: true })\<close> creates the directory and the missing ones
  above it; it throws when a file is in the way.
\<close>

fun mkdirSync :: "node \<Rightarrow> path \<Rightarrow> node option" where
  "mkdirSync (File c) p = None"
| "mkdirSync (Dir es) [] = Some (Dir es)"
| "mkdirSync (Dir es) (x # xs) =
     (case mkdirSync (case map_of es x of None \<Rightarrow> Dir [] | Some n \<Rightarrow> n) xs of
        None \<Rightarrow> None
      | Some n' \<Rightarrow> Some (Dir (AList.update x n' es)))"

text \<open>The method \<open>ensureDirectory\<close>.\<close>

definition ensureDirectory :: "node \<Rightarrow> path \<Rightarrow> node option" where
  "ensureDirectory t dir = (if \<not> existsSync t dir then mkdirSync t dir else Some t)"

text \<open>\<open>fs.copyFileSync\<close> reads a file and writes it at the destination.\<close>

definition copyFileSync :: "node \<Rightarrow> path \<Rightarrow> path \<Rightarrow> node option" where
  "copyFileSync t src dst =
     (case readFileSync t src of None \<Rightarrow> None | Some c \<Rightarrow> writeFileSync t dst c)"

text \<open>
  \<open>fs.renameSync\<close>, which the scripts call on a path that they have just read as a
  file: the file replaces a file of the new name, and the call throws when the new name
  is a directory.
\<close>

definition renameSync :: "node \<Rightarrow> path \<Rightarrow> path \<Rightarrow> node option" where
  "renameSync t old new =
     (case readFileSync t old of
        None \<Rightarrow> None
      | Some c \<Rightarrow>
          (case lookup t new of
             Some (Dir es) \<Rightarrow> None
           | _ \<Rightarrow> writeFileSync (rm_rf t old) new c))"

subsection \<open>Validation and the transient compiler configuration\<close>

definition sourceDir :: path where
  "sourceDir = [js ''resources'', js ''js'']"

definition checkDependencies :: "env \<Rightarrow> node \<Rightarrow> bool \<times> node" where
  "checkDependencies e t =
     (case execSync e (js ''npx -p typescript tsc --version'') t of
        (Some out, t') \<Rightarrow> (True, t')
      | (None, t') \<Rightarrow> (False, t'))"

text \<open>The configuration object of \<open>createTempTsConfig\<close>.\<close>

definition tempTsConfig :: "env \<Rightarrow> json" where
  "tempTsConfig e = JObj
     [(js ''compilerOptions'', JObj
        [(js ''jsx'', JStr (js ''preserve'')),
         (js ''target'', JStr (js ''ES2020'')),
         (js ''lib'', JArr [JStr (js ''ES2020''), JStr (js ''DOM''), JStr (js ''DOM.Iterable'')]),
         (js ''allowJs'', JBool True),
         (js ''skipLibCheck'', JBool True),
         (js ''esModuleInterop'', JBool True),
         (js ''allowSyntheticDefaultImports'', JBool True),
         (js ''strict'', JBool False),
         (js ''forceConsistentCasingInFileNames'', JBool False),
         (js ''noEmit'', JBool False),
         (js ''module'', JStr (js ''ESNext'')),
         (js ''moduleResolution'', JStr (js ''node'')),
         (js ''resolveJsonModule'', JBool True),
         (js ''isolatedModules'', JBool True),
         (js ''noEmitOnError'', JBool False),
         (js ''declaration'', JBool False),
         (js ''sourceMap'', JBool False),
         (js ''baseUrl'', JStr (js ''.'')),
         (js ''paths'', JObj [(js ''@/*'', JArr [JStr (js ''./resources/js/*'')])]),
         (js ''outDir'', JStr (path_resolve e jsOutputDir)),
         (js ''rootDir'', JStr (path_resolve e sourceDir)),
         (js ''noImplicitAny'', JBool False),
         (js ''noImplicitReturns'', JBool False),
         (js ''noImplicitThis'', JBool False),
         (js ''noUnusedLocals'', JBool False),
         (js ''noUnusedParameters'', JBool False)]),
      (js ''include'', JArr [JStr (path_resolve e sourceDir)]),
      (js ''exclude'', JArr [JStr (js ''node_modules''), JStr (js ''output''), JStr (js ''**/*.d.ts'')])]"

definition createTempTsConfig :: "env \<Rightarrow> node \<Rightarrow> node option" where
  "createTempTsConfig e t = writeFileSync t tsconfigPath (JSON_stringify e (tempTsConfig e) 2)"

subsection \<open>\<open>processJavaScriptFiles\<close>\<close>

text \<open>
  \<open>original.match(/<\w[\s>/]/)\<close>: somewhere a \<open><\<close>, then one word character, then one
  character that is white space, \<open>>\<close> or \<open>/\<close>.
\<close>

fun looks_like_markup :: "jstring \<Rightarrow> bool" where
  "looks_like_markup (a # b # c # cs) =
     ((a = 0x3C \<and> is_word b \<and> (is_space c \<or> c = 0x3E \<or> c = 0x2F))
      \<or> looks_like_markup (b # c # cs))"
| "looks_like_markup cs = False"

text \<open>
  \<open>glob(`${this.jsOutputDir}/**/*.{js,jsx}`)\<close>: the paths below the output directory
  whose last segment ends in \<open>.js\<close> or \<open>.jsx\<close>, files and directories alike. With the
  default options of \<open>glob\<close>, \<open>*\<close> does not match a name that starts with a dot and
  \<open>**\<close> does not descend into such a directory. The paths are listed in the order of
  the directories.
\<close>

definition is_js_name :: "jstring \<Rightarrow> bool" where
  "is_js_name name \<longleftrightarrow>
     \<not> prefix (js ''.'') name \<and> (endsWith name (js ''.js'') \<or> endsWith name (js ''.jsx''))"

fun glob_js :: "path \<Rightarrow> node \<Rightarrow> path list"
  and glob_js_items :: "path \<Rightarrow> (jstring \<times> node) list \<Rightarrow> path list" where
  "glob_js dir (File c) = []"
| "glob_js dir (Dir es) = glob_js_items dir es"
| "glob_js_items dir [] = []"
| "glob_js_items dir ((name, n) # es) =
     (if is_js_name name then [dir @ [name]] else [])
     @ (if prefix (js ''.'') name then [] else glob_js (dir @ [name]) n)
     @ glob_js_items dir es"

definition glob_output_js :: "node \<Rightarrow> path list" where
  "glob_output_js t = (case lookup t jsOutputDir of None \<Rightarrow> [] | Some n \<Rightarrow> glob_js jsOutputDir n)"

text \<open>
  \<open>file.replace(/\.js$/, '.jsx')\<close> for a file whose name ends in \<open>.js\<close>. A path ends in
  \<open>.js\<close> when its last segment does, so the test \<open>file.endsWith('.js')\<close> and the
  replacement are written on the last segment.
\<close>

definition ends_js :: "path \<Rightarrow> bool" where
  "ends_js file \<longleftrightarrow> file \<noteq> [] \<and> endsWith (last file) (js ''.js'')"

definition jsx_name :: "path \<Rightarrow> path" where
  "jsx_name file =
     butlast file @ [take (length (last file) - length (js ''.js'')) (last file) @ js ''.jsx'']"

text \<open>
  The body of the loop. An error of the read or of the rename is caught and logged, and
  the loop goes on with the next file.
\<close>

definition processJavaScriptFile :: "node \<Rightarrow> path \<Rightarrow> node" where
  "processJavaScriptFile t file =
     (case readFileSync t file of
        None \<Rightarrow> t
      | Some original \<Rightarrow>
          if ends_js file \<and> looks_like_markup original then
            (case renameSync t file (jsx_name file) of
               None \<Rightarrow> t
             | Some t' \<Rightarrow> t')
          else t)"

definition processJavaScriptFiles :: "node \<Rightarrow> node" where
  "processJavaScriptFiles t = foldl processJavaScriptFile t (glob_output_js t)"

subsection \<open>\<open>copyProjectStructure\<close>\<close>

text \<open>
  The pattern as the specification words it: a \<open><\<close>, then a word character, then white
  space or \<open>/>\<close>.
\<close>

fun spec_markup :: "jstring \<Rightarrow> bool" where
  "spec_markup (a # b # c # cs) =
     ((a = 0x3C \<and> is_word b \<and> (is_space c \<or> (c = 0x2F \<and> prefix [0x3E] cs)))
      \<or> spec_markup (b # c # cs))"
| "spec_markup cs = False"

text \<open>Two trees with compiler output, for the examples below.\<close>

definition example_output :: node where
  "example_output = Dir [(js ''output'', Dir [(js ''js'', Dir
     [(js ''menu.js'', File (js ''const m = <a href={u}>x</a>;'')),
      (js ''util.js'', File (js ''export const lt = (a, b) => a < b;'')),
      (js ''page.jsx'', File (js ''export default () => <div/>;''))])])]"

definition colliding_output :: node where
  "colliding_output = Dir [(js ''output'', Dir [(js ''js'', Dir
     [(js ''a.js'', File (js ''<p>x</p>'')),
      (js ''a.jsx'', File (js ''old''))])])]"

definition excludeDirs :: "jstring list" where
  "excludeDirs = [js ''output'', js ''node_modules'', js ''scripts'', js ''vendor'', js ''templates'',
     js ''storage/logs'', js ''.git'']"

definition excludeFiles :: "jstring list" where
  "excludeFiles = [js ''composer.lock'', js ''.env'', js ''workflow-test-report.json'']"

text \<open>
  \<open>copyProjectFiles(source, target, excludeDirs, excludeFiles)\<close>. The first argument is
  the listing of the source directory with what its entries hold, taken from the tree on
  which the copy starts; the target is a path, and the tree is passed along. The copy
  writes below \<open>output\<close> only and skips every entry of that name, so it never reads what
  it has written, and reading the source from the tree of the start is what the method
  does.
\<close>

fun copyProjectFiles :: "(jstring \<times> node) list \<Rightarrow> path \<Rightarrow> node \<Rightarrow> node option" where
  "copyProjectFiles [] target t = Some t"
| "copyProjectFiles ((item, Dir sub) # items) target t =
     (if item \<in> set excludeDirs \<or> item \<in> set excludeFiles then copyProjectFiles items target t
      else if item = js ''.github'' then copyProjectFiles items target t
      else
        (case ensureDirectory t (target @ [item]) of
           None \<Rightarrow> None
         | Some t1 \<Rightarrow>
             (case copyProjectFiles sub (target @ [item]) t1 of
                None \<Rightarrow> None
              | Some t2 \<Rightarrow> copyProjectFiles items target t2)))"
| "copyProjectFiles ((item, File c) # items) target t =
     (if item \<in> set excludeDirs \<or> item \<in> set excludeFiles then copyProjectFiles items target t
      else if item = js ''.github'' then copyProjectFiles items target t
      else
        (case writeFileSync t (target @ [item]) c of
           None \<Rightarrow> None
         | Some t1 \<Rightarrow> copyProjectFiles items target t1))"

text \<open>\<open>copyDirectory(source, target)\<close>, with the source given in the same way.\<close>

fun copyDirectory :: "node \<Rightarrow> path \<Rightarrow> node \<Rightarrow> node option"
  and copyDirectoryItems :: "(jstring \<times> node) list \<Rightarrow> path \<Rightarrow> node \<Rightarrow> node option" where
  "copyDirectory (File c) target t = None"
| "copyDirectory (Dir es) target t =
     (case ensureDirectory t target of
        None \<Rightarrow> None
      | Some t1 \<Rightarrow> copyDirectoryItems es target t1)"
| "copyDirectoryItems [] target t = Some t"
| "copyDirectoryItems ((item, Dir sub) # items) target t =
     (case copyDirectory (Dir sub) (target @ [item]) t of
        None \<Rightarrow> None
      | Some t1 \<Rightarrow> copyDirectoryItems items target t1)"
| "copyDirectoryItems ((item, File c) # items) target t =
     (case writeFileSync t (target @ [item]) c of
        None \<Rightarrow> None
      | Some t1 \<Rightarrow> copyDirectoryItems items target t1)"

text \<open>The two allowed workflows and the workflow from the templates.\<close>

definition workflowsSource :: path where
  "workflowsSource = [js ''.github'', js ''workflows'']"

definition workflowsTarget :: path where
  "workflowsTarget = outputDir @ [js ''.github'', js ''workflows'']"

definition copyWorkflow :: "jstring \<Rightarrow> node \<Rightarrow> node option" where
  "copyWorkflow workflow t =
     (if existsSync t (workflowsSource @ [workflow])
      then copyFileSync t (workflowsSource @ [workflow]) (workflowsTarget @ [workflow])
      else Some t)"

definition templateWorkflowSource :: path where
  "templateWorkflowSource = [js ''templates'', js ''workflows'', js ''auto-release.yml'']"

definition copyProjectStructure :: "node \<Rightarrow> node option" where
  "copyProjectStructure t =
     do {
       t1 \<leftarrow> (case t of Dir items \<Rightarrow> copyProjectFiles items outputDir t | File c \<Rightarrow> None);
       t2 \<leftarrow> (if existsSync t1 workflowsSource then
                 do {
                   u \<leftarrow> ensureDirectory t1 workflowsTarget;
                   u1 \<leftarrow> copyWorkflow (js ''lint.yml'') u;
                   copyWorkflow (js ''tests.yml'') u1
                 }
               else Some t1);
       if existsSync t2 templateWorkflowSource then
         do {
           u \<leftarrow> ensureDirectory t2 workflowsTarget;
           copyFileSync u templateWorkflowSource (workflowsTarget @ [js ''auto-release.yml''])
         }
       else Some t2
     }"

subsection \<open>The steps of \<open>run\<close>\<close>

text \<open>
  The set-up: the output directory is removed with all it holds and created again, and
  the directory for the compiler output is created in it.
\<close>

definition setup_output :: "node \<Rightarrow> node option" where
  "setup_output t =
     do {
       t1 \<leftarrow> Some (if existsSync t outputDir then rm_rf t outputDir else t);
       t2 \<leftarrow> ensureDirectory t1 outputDir;
       ensureDirectory t2 jsOutputDir
     }"

text \<open>\<open>resources/js\<close> of the output is replaced by the converted files.\<close>

definition replaceResourcesJs :: "node \<Rightarrow> node option" where
  "replaceResourcesJs t =
     (let outputResourcesJs = outputDir @ [js ''resources'', js ''js''];
          t1 = (if existsSync t outputResourcesJs then rm_rf t outputResourcesJs else t)
      in case lookup t1 jsOutputDir of
           None \<Rightarrow> None
         | Some source \<Rightarrow> copyDirectory source outputResourcesJs t1)"

text \<open>\<open>vite.config.ts\<close> of the output becomes \<open>vite.config.js\<close>.\<close>

definition convertOutputViteConfig :: "node \<Rightarrow> node option" where
  "convertOutputViteConfig t =
     (let outputViteConfigTs = outputDir @ [js ''vite.config.ts''];
          outputViteConfigJs = outputDir @ [js ''vite.config.js'']
      in if existsSync t outputViteConfigTs then
           do {
             content \<leftarrow> readFileSync t outputViteConfigTs;
             t1 \<leftarrow> writeFileSync t outputViteConfigJs (convert_vite_config content);
             rmSync t1 outputViteConfigTs
           }
         else Some t)"

text \<open>
  The \<open>@vite\<close> directive of the view template: the expression is a fixed text with
  \<open>\s*\<close> behind the comma, and it has the flag \<open>g\<close>.
\<close>

definition match_vite_directive :: "jstring \<Rightarrow> nat option" where
  \<open>match_vite_directive s =
     (if prefix (js ''@vite(['resources/js/app.tsx','') s then
        (let r = dropWhile is_space (drop (length (js ''@vite(['resources/js/app.tsx','')) s)
         in if prefix (js ''"resources/js/pages/{$page['component']}.tsx"])'') r
            then Some (length s
                   - length (drop (length (js ''"resources/js/pages/{$page['component']}.tsx"])'')) r))
            else None)
      else None)\<close>

definition updateOutputBlade :: "node \<Rightarrow> node option" where
  \<open>updateOutputBlade t =
     (let outputBladeFile = outputDir @ [js ''resources'', js ''views'', js ''app.blade.php'']
      in if existsSync t outputBladeFile then
           do {
             content \<leftarrow> readFileSync t outputBladeFile;
             writeFileSync t outputBladeFile
               (replace_regex match_vite_directive
                  (js ''@vite(['resources/js/app.jsx', "resources/js/pages/{$page['component']}.jsx"])'')
                  content)
           }
         else Some t)\<close>

text \<open>The TypeScript configuration files and the directory of the types are removed.\<close>

definition removeOutputFile :: "jstring \<Rightarrow> node \<Rightarrow> node option" where
  "removeOutputFile file t =
     (if existsSync t (outputDir @ [file]) then rmSync t (outputDir @ [file]) else Some t)"

definition removeTypesDir :: "node \<Rightarrow> node" where
  "removeTypesDir t =
     (let typesDir = outputDir @ [js ''resources'', js ''js'', js ''types'']
      in if existsSync t typesDir then rm_rf t typesDir else t)"

text \<open>
  The files with metadata. \<open>composer.json\<close> and \<open>components.json\<close> get one property
  assigned; on a parsed value that is no object the assignment throws, the scripts being
  modules and so in strict mode, or is lost when the value is an array.
\<close>

definition updateOutputPackageJson :: "env \<Rightarrow> node \<Rightarrow> node option" where
  "updateOutputPackageJson e t =
     (let outputPackageJson = outputDir @ [js ''package.json'']
      in if existsSync t outputPackageJson then
           do {
             content \<leftarrow> readFileSync t outputPackageJson;
             packageJson \<leftarrow> JSON_parse e content;
             packageJson' \<leftarrow> updatePackageJson packageJson;
             writeFileSync t outputPackageJson (JSON_stringify e packageJson' 2)
           }
         else Some t)"

fun assign_prop :: "json \<Rightarrow> jstring \<Rightarrow> json \<Rightarrow> json option" where
  "assign_prop (JObj es) k v = Some (JObj (AList.update k v es))"
| "assign_prop (JArr xs) k v = Some (JArr xs)"
| "assign_prop w k v = None"

definition updateOutputJson :: "env \<Rightarrow> jstring \<Rightarrow> jstring \<Rightarrow> json \<Rightarrow> node \<Rightarrow> node option" where
  "updateOutputJson e file k v t =
     (if existsSync t (outputDir @ [file]) then
        do {
          content \<leftarrow> readFileSync t (outputDir @ [file]);
          parsed \<leftarrow> JSON_parse e content;
          parsed' \<leftarrow> assign_prop parsed k v;
          writeFileSync t (outputDir @ [file]) (JSON_stringify e parsed' 4)
        }
      else Some t)"

text \<open>The text that replaces \<open>README.md\<close>.\<close>

definition templateReadme :: jstring where
  "templateReadme =
     js ''# Laravel + React JSX Starter Kit\<newline>''
     @ js ''\<newline>''
     @ js ''## Introduction\<newline>''
     @ js ''\<newline>''
     @ js ''Our React JSX starter kit provides a robust, modern starting point for building Laravel applications with a React frontend using [Inertia](https://inertiajs.com), using **JavaScript/JSX instead of TypeScript** for broader accessibility.\<newline>''
     @ js ''\<newline>''
     @ js ''Inertia allows you to build modern, single-page React applications using classic server-side routing and controllers. This lets you enjoy the frontend power of React combined with the incredible backend productivity of Laravel and lightning-fast Vite compilation.\<newline>''
     @ js ''\<newline>''
     @ js ''This React starter kit utilizes React 19, **JavaScript/JSX**, Tailwind, and the [shadcn/ui](https://ui.shadcn.com) and [radix-ui](https://www.radix-ui.com) component libraries.\<newline>''
     @ js ''\<newline>''
     @ js ''> **Note:** This template is automatically generated from [aliziodev/react-jsx-starter-kit-dev](https://github.com/aliziodev/react-jsx-starter-kit-dev) based on the original Laravel React starter kit repository. The conversion process transforms TypeScript files to JavaScript/JSX for broader accessibility.\<newline>''
     @ js ''\<newline>''
     @ js ''## Usage\<newline>''
     @ js ''\<newline>''
     @ js ''```bash\<newline>''
     @ js ''laravel new my-app --using=aliziodev/react-jsx-starter-kit\<newline>''
     @ js ''```\<newline>''
     @ js ''\<newline>''
     @ js ''## Official Documentation\<newline>''
     @ js ''\<newline>''
     @ js ''Documentation for all Laravel starter kits can be found on the [Laravel website](https://laravel.com/docs/starter-kits).\<newline>''
     @ js ''\<newline>''
     @ js ''## Contributing\<newline>''
     @ js ''\<newline>''
     @ js ''Thank you for considering contributing to our starter kit! The contribution guide can be found in the [Laravel documentation](https://laravel.com/docs/contributions).\<newline>''
     @ js ''\<newline>''
     @ js ''## Code of Conduct\<newline>''
     @ js ''\<newline>''
     @ js ''In order to ensure that the Laravel community is welcoming to all, please review and abide by the [Code of Conduct](https://laravel.com/docs/contributions#code-of-conduct).\<newline>''
     @ js ''\<newline>''
     @ js ''## License\<newline>''
     @ js ''\<newline>''
     @ js ''The Laravel + React JSX starter kit is open-sourced software licensed under the MIT license.\<newline>''
     @ js ''''"

definition updateOutputReadme :: "node \<Rightarrow> node option" where
  "updateOutputReadme t =
     (let outputReadme = outputDir @ [js ''README.md'']
      in if existsSync t outputReadme then writeFileSync t outputReadme templateReadme else Some t)"

text \<open>The temporary files of the output and, in \<open>cleanup\<close>, the transient configuration.\<close>

definition removeTempFile :: "path \<Rightarrow> node \<Rightarrow> node option" where
  "removeTempFile tempFile t =
     (if existsSync t tempFile then
        (if isDirectory t tempFile then Some (rm_rf t tempFile) else rmSync t tempFile)
      else Some t)"

definition cleanup :: "node \<Rightarrow> node option" where
  "cleanup t = (if existsSync t tsconfigPath then rmSync t tsconfigPath else Some t)"

text \<open>
  What \<open>run\<close> does once the compiler has emitted output. (\<open>generateStats\<close> only counts
  and prints.)
\<close>

definition rewrite_output :: "env \<Rightarrow> node \<Rightarrow> node option" where
  "rewrite_output e t =
     do {
       t1 \<leftarrow> Some (updateFileReferences (processJavaScriptFiles t));
       t2 \<leftarrow> replaceResourcesJs t1;
       t3 \<leftarrow> convertOutputViteConfig t2;
       t4 \<leftarrow> updateOutputBlade t3;
       t5 \<leftarrow> removeOutputFile (js ''tsconfig.json'') t4;
       t6 \<leftarrow> removeOutputFile (js ''tsconfig.node.json'') t5;
       t7 \<leftarrow> updateOutputPackageJson e (removeTypesDir t6);
       t8 \<leftarrow> updateOutputJson e (js ''composer.json'') (js ''name'')
               (JStr (js ''aliziodev/react-jsx-starter-kit'')) t7;
       t9 \<leftarrow> updateOutputJson e (js ''components.json'') (js ''tsx'') (JBool False) t8;
       t10 \<leftarrow> updateOutputReadme t9;
       t11 \<leftarrow> removeTempFile (outputDir @ [js ''tsconfig.temp.json'']) t10;
       t12 \<leftarrow> removeTempFile (outputDir @ [js ''js'']) t11;
       cleanup t12
     }"

text \<open>
  \<open>run\<close>, in three parts. The initial copy is the set-up and \<open>copyProjectStructure\<close>.
  Behind the validation come the initial copy, the rewrite of the lint configuration,
  the transient configuration and the compiler; when the compiler fails, \<open>run\<close> returns.
  \<open>None\<close> is a run that ends with an exception, which the script prints. The two
  validations end the run with a \<open>return\<close> as well.
\<close>

definition initial_copy :: "node \<Rightarrow> node option" where
  "initial_copy t0 =
     do {
       t1 \<leftarrow> setup_output t0;
       copyProjectStructure t1
     }"

definition after_validation :: "env \<Rightarrow> node \<Rightarrow> node option" where
  "after_validation e t0 =
     do {
       t2 \<leftarrow> initial_copy t0;
       t3 \<leftarrow> updateOutputEslintConfig t2;
       t4 \<leftarrow> createTempTsConfig e t3;
       case convertTypeScriptFiles e t4 of
         (None, t5, cmds) \<Rightarrow> None
       | (Some False, t5, cmds) \<Rightarrow> Some t5
       | (Some True, t5, cmds) \<Rightarrow> rewrite_output e t5
     }"

definition run :: "env \<Rightarrow> node \<Rightarrow> node option" where
  "run e t =
     (case checkDependencies e t of
        (False, t0) \<Rightarrow> Some t0
      | (True, t0) \<Rightarrow>
          if \<not> existsSync t0 sourceDir then Some t0 else after_validation e t0)"

text \<open>
  A project with output that an earlier run left, and an environment in which the
  compiler reports its version but fails on every compilation and emits nothing.
\<close>

definition tsc_version_only :: "jstring \<Rightarrow> node \<Rightarrow> jstring option \<times> node" where
  "tsc_version_only cmd t =
     (if str_includes cmd (js ''--version'') then (Some (js ''Version 5.7.2''), t) else (None, t))"

definition example_project :: node where
  \<open>example_project = Dir
     [(js ''eslint.config.js'', File (js ''export default [{ ignores: ['vendor', 'output'] }];'')),
      (js ''resources'', Dir [(js ''js'', Dir [(js ''app.tsx'', File (js ''export {};''))])]),
      (js ''output'', Dir [(js ''stale.js'', File (js ''left by an earlier run''))])]\<close>

definition example_project_clean :: node where
  \<open>example_project_clean = Dir
     [(js ''eslint.config.js'', File (js ''export default [{ ignores: ['vendor', 'output'] }];'')),
      (js ''resources'', Dir [(js ''js'', Dir [(js ''app.tsx'', File (js ''export {};''))])])]\<close>

text \<open>
  The initial copy of \<open>example_project\<close>, the copy with the lint configuration
  rewritten, and the tree with the transient configuration, on which the compiler runs.
\<close>

definition example_copy :: node where
  \<open>example_copy = Dir
     [(js ''eslint.config.js'', File (js ''export default [{ ignores: ['vendor', 'output'] }];'')),
      (js ''resources'', Dir [(js ''js'', Dir [(js ''app.tsx'', File (js ''export {};''))])]),
      (js ''output'', Dir
        [(js ''js'', Dir []),
         (js ''eslint.config.js'', File (js ''export default [{ ignores: ['vendor', 'output'] }];'')),
         (js ''resources'', Dir [(js ''js'', Dir [(js ''app.tsx'', File (js ''export {};''))])])])]\<close>

definition example_linted :: node where
  \<open>example_linted = Dir
     [(js ''eslint.config.js'', File (js ''export default [{ ignores: ['vendor', 'output'] }];'')),
      (js ''resources'', Dir [(js ''js'', Dir [(js ''app.tsx'', File (js ''export {};''))])]),
      (js ''output'', Dir
        [(js ''js'', Dir []),
         (js ''eslint.config.js'', File (js ''export default [{ ignores: ['vendor'] }];'')),
         (js ''resources'', Dir [(js ''js'', Dir [(js ''app.tsx'', File (js ''export {};''))])])])]\<close>

definition example_configured :: node where
  \<open>example_configured = Dir
     [(js ''eslint.config.js'', File (js ''export default [{ ignores: ['vendor', 'output'] }];'')),
      (js ''resources'', Dir [(js ''js'', Dir [(js ''app.tsx'', File (js ''export {};''))])]),
      (js ''output'', Dir
        [(js ''js'', Dir []),
         (js ''eslint.config.js'', File (js ''export default [{ ignores: ['vendor'] }];'')),
         (js ''resources'', Dir [(js ''js'', Dir [(js ''app.tsx'', File (js ''export {};''))])])]),
      (js ''tsconfig.temp.json'', File (js ''{}''))]\<close>



section \<open>The workflow self-test\<close>

text \<open>
  The second script is the class \<open>WorkflowTester\<close>.  Its \<open>log\<close> only prints, so the model
  leaves it out.  Every external command goes through \<open>execSync\<close> of the environment, which
  may change the tree and either returns the output of the command or throws (\<open>None\<close>).
\<close>

subsection \<open>Prerequisites\<close>

text \<open>
  \<open>parseInt(s)\<close> with no radix: leading white space is skipped, then an optional sign, then
  \<open>0x\<close> or \<open>0X\<close> selects radix 16; the longest run of digits of the radix is the value, and
  there is no value (\<open>NaN\<close>) when that run is empty.  The value is kept as an unbounded
  integer: the script only compares it with 18, and rounding to a double does not change
  the outcome of that comparison.
\<close>

definition digit_value :: "nat \<Rightarrow> 16 word \<Rightarrow> nat option" where
  "digit_value radix c =
     (if 0x30 \<le> c \<and> c \<le> 0x39 then Some (unat c - 0x30)
      else if radix = 16 \<and> 0x61 \<le> c \<and> c \<le> 0x66 then Some (unat c - 0x61 + 10)
      else if radix = 16 \<and> 0x41 \<le> c \<and> c \<le> 0x46 then Some (unat c - 0x41 + 10)
      else None)"

definition parseInt :: "jstring \<Rightarrow> int option" where
  "parseInt s =
     (let s1 = dropWhile is_space s;
          negative = prefix (js ''-'') s1;
          s2 = (if prefix (js ''-'') s1 \<or> prefix (js ''+'') s1 then drop 1 s1 else s1);
          radix = (if prefix (js ''0x'') s2 \<or> prefix (js ''0X'') s2 then 16 else 10);
          s3 = (if radix = 16 then drop 2 s2 else s2);
          digits = takeWhile (\<lambda>c. digit_value radix c \<noteq> None) s3;
          n = foldl (\<lambda>a c. a * radix + the (digit_value radix c)) 0 digits
      in if digits = [] then None else Some (if negative then - int n else int n))"

text \<open>
  The validator of the first check:
  \<open>parseInt(output.trim().replace('v', '').split('.')[0]) >= 18\<close>; a comparison with
  \<open>NaN\<close> is false.
\<close>

definition node_version_ok :: "jstring \<Rightarrow> bool" where
  "node_version_ok output =
     (let version = trim output;
          major = parseInt (hd (split_on 0x2E (replace_first (js ''v'') [] version)))
      in case major of None \<Rightarrow> False | Some m \<Rightarrow> m \<ge> 18)"

definition prerequisite_checks :: "(jstring \<times> (jstring \<Rightarrow> bool) option) list" where
  "prerequisite_checks =
     [(js ''node --version'', Some node_version_ok),
      (js ''npm --version'', None),
      (js ''npx -p typescript tsc --version'', None),
      (js ''npx prettier --version'', None),
      (js ''git --version'', None)]"

text \<open>
  The loop of \<open>checkPrerequisites\<close>: every check is run, and \<open>allPassed\<close> becomes false when
  a command throws or its validator rejects the output.
\<close>

fun run_checks ::
  "env \<Rightarrow> (jstring \<times> (jstring \<Rightarrow> bool) option) list \<Rightarrow> bool \<Rightarrow> node \<Rightarrow> bool \<times> node" where
  "run_checks e [] allPassed t = (allPassed, t)"
| "run_checks e ((command, validator) # checks) allPassed t =
     (case execSync e command t of
        (None, t') \<Rightarrow> run_checks e checks False t'
      | (Some result, t') \<Rightarrow>
          (case validator of
             Some valid \<Rightarrow>
               if \<not> valid result then run_checks e checks False t'
               else run_checks e checks allPassed t'
           | None \<Rightarrow> run_checks e checks allPassed t'))"

definition checkPrerequisites :: "env \<Rightarrow> node \<Rightarrow> bool \<times> node" where
  "checkPrerequisites e t = run_checks e prerequisite_checks True t"

subsection \<open>Project structure\<close>

definition requiredFiles :: "path list" where
  "requiredFiles =
     [map js [''package.json''],
      map js [''resources'', ''js'', ''app.tsx''],
      map js [''resources'', ''js'', ''ssr.tsx''],
      map js [''vite.config.ts''],
      map js [''resources'', ''views'', ''app.blade.php''],
      map js [''scripts'', ''run-conversion.js'']]"

definition requiredDirs :: "path list" where
  "requiredDirs =
     [map js [''resources'', ''js'', ''components''],
      map js [''resources'', ''js'', ''pages''],
      map js [''resources'', ''js'', ''layouts''],
      map js [''resources'', ''js'', ''hooks'']]"

definition checkProjectStructure :: "node \<Rightarrow> bool" where
  "checkProjectStructure t \<longleftrightarrow>
     list_all (existsSync t) requiredFiles
     \<and> list_all (\<lambda>dir. existsSync t dir \<and> isDirectory t dir) requiredDirs"

subsection \<open>Conversion and its output\<close>

definition requiredOutputFiles :: "path list" where
  "requiredOutputFiles =
     [map js [''output'', ''resources'', ''js'', ''app.jsx''],
      map js [''output'', ''resources'', ''js'', ''ssr.jsx''],
      map js [''output'', ''vite.config.js''],
      map js [''output'', ''resources'', ''views'', ''app.blade.php''],
      map js [''output'', ''package.json'']]"

definition requiredOutputDirs :: "path list" where
  "requiredOutputDirs =
     [map js [''output'', ''resources'', ''js'', ''components''],
      map js [''output'', ''resources'', ''js'', ''pages''],
      map js [''output'', ''resources'', ''js'', ''layouts''],
      map js [''output'', ''resources'', ''js'', ''hooks'']]"

text \<open>
  \<open>verifyConversionOutput\<close> returns \<open>allValid\<close>, which only the two loops over the required
  files and directories assign.  What follows them (the count of converted files, the look
  at \<open>package.json\<close> and at the types directory) sits in \<open>try\<close> blocks and only prints; of
  it the model keeps the one external command, for its effect on the tree.
\<close>

definition verifyConversionOutput :: "env \<Rightarrow> node \<Rightarrow> bool \<times> node" where
  \<open>verifyConversionOutput e t =
     (let allValid = (list_all (existsSync t) requiredOutputFiles
            \<and> list_all (\<lambda>dir. existsSync t dir \<and> isDirectory t dir) requiredOutputDirs)
      in (allValid,
          snd (execSync e (js ''find output/resources/js -name "*.jsx" -o -name "*.js" | wc -l'') t)))\<close>

definition testConversion :: "env \<Rightarrow> node \<Rightarrow> bool \<times> node" where
  "testConversion e t =
     (let t1 = (if existsSync t outputDir then rm_rf t outputDir else t)
      in case execSync e (js ''node scripts/run-conversion.js'') t1 of
           (None, t2) \<Rightarrow> (False, t2)
         | (Some out, t2) \<Rightarrow> verifyConversionOutput e t2)"

subsection \<open>Workflow components\<close>

text \<open>
  \<open>testWorkflowComponents\<close> runs three commands through \<open>runCommand\<close>, which catches their
  failure, does not look at any result, and ends with \<open>return true\<close>.
\<close>

definition testWorkflowComponents :: "env \<Rightarrow> node \<Rightarrow> bool \<times> node" where
  "testWorkflowComponents e t =
     (let t1 = snd (execSync e (js ''git status --porcelain'') t);
          t2 = snd (execSync e (js ''git remote -v'') t1);
          t3 = snd (execSync e (js ''npm list --depth=0'') t2)
      in (True, t3))"

subsection \<open>The report and the exit code\<close>

definition report :: "env \<Rightarrow> json" where
  "report e = JObj
     [(js ''timestamp'', JStr (toISOString e)),
      (js ''project'', JStr (js ''react-jsx-starter-kit-dev'')),
      (js ''workflow'', JStr (js ''sync-and-deploy'')),
      (js ''status'', JStr (js ''completed'')),
      (js ''summary'', JObj
        [(js ''prerequisites'', JStr (js ''passed'')),
         (js ''structure'', JStr (js ''passed'')),
         (js ''conversion'', JStr (js ''passed'')),
         (js ''components'', JStr (js ''passed''))])]"

definition reportPath :: path where
  "reportPath = [js ''workflow-test-report.json'']"

text \<open>\<open>generateReport\<close> throws when \<open>fs.writeFileSync\<close> does.\<close>

definition generateReport :: "env \<Rightarrow> node \<Rightarrow> node option" where
  "generateReport e t = writeFileSync t reportPath (JSON_stringify e (report e) 2)"

definition summary_field :: "json \<Rightarrow> jstring \<Rightarrow> json option" where
  "summary_field r k = Option.bind (get_prop r (js ''summary'')) (\<lambda>s. get_prop s k)"

text \<open>
  The entry point \<open>run\<close>: the exit code and the tree that the process leaves. The flag
  \<open>allTestsPassed\<close> starts true and is cleared by every step that returns false; all four
  steps are executed whatever the earlier ones returned. An exception of
  \<open>generateReport\<close> rejects the promise of \<open>run\<close>, and the handler at the bottom of the
  script exits with 1.
\<close>

definition tester_run :: "env \<Rightarrow> node \<Rightarrow> nat \<times> node" where
  "tester_run e t =
     (let allTestsPassed = True;
          (prerequisites, t1) = checkPrerequisites e t;
          allTestsPassed = (if \<not> prerequisites then False else allTestsPassed);
          allTestsPassed = (if \<not> checkProjectStructure t1 then False else allTestsPassed);
          (conversion, t3) = testConversion e t1;
          allTestsPassed = (if \<not> conversion then False else allTestsPassed);
          (components, t4) = testWorkflowComponents e t3;
          allTestsPassed = (if \<not> components then False else allTestsPassed)
      in case generateReport e t4 of
           None \<Rightarrow> (1, t4)
         | Some t5 \<Rightarrow> (if allTestsPassed then 0 else 1, t5))"

text \<open>The trees in which the later steps of \<open>run\<close> start.\<close>

definition after_prerequisites :: "env \<Rightarrow> node \<Rightarrow> node" where
  "after_prerequisites e t = snd (checkPrerequisites e t)"

definition after_conversion :: "env \<Rightarrow> node \<Rightarrow> node" where
  "after_conversion e t = snd (testConversion e (after_prerequisites e t))"

definition before_report :: "env \<Rightarrow> node \<Rightarrow> node" where
  "before_report e t = snd (testWorkflowComponents e (after_conversion e t))"

subsection \<open>Example runs\<close>

definition tester_project :: node where
  "tester_project = Dir
     [(js ''package.json'', File (js ''{}'')),
      (js ''vite.config.ts'', File []),
      (js ''scripts'', Dir [(js ''run-conversion.js'', File [])]),
      (js ''resources'', Dir
        [(js ''views'', Dir [(js ''app.blade.php'', File [])]),
         (js ''js'', Dir
           [(js ''app.tsx'', File []), (js ''ssr.tsx'', File []),
            (js ''components'', Dir []), (js ''pages'', Dir []),
            (js ''layouts'', Dir []), (js ''hooks'', Dir [])])])]"

definition converted_output :: node where
  "converted_output = Dir
     [(js ''package.json'', File (js ''{}'')),
      (js ''vite.config.js'', File []),
      (js ''resources'', Dir
        [(js ''views'', Dir [(js ''app.blade.php'', File [])]),
         (js ''js'', Dir
           [(js ''app.jsx'', File []), (js ''ssr.jsx'', File []),
            (js ''components'', Dir []), (js ''pages'', Dir []),
            (js ''layouts'', Dir []), (js ''hooks'', Dir [])])])]"

text \<open>
  Every tool is installed, \<open>node --version\<close> prints the given text, and the conversion
  script leaves \<open>converted_output\<close> in \<open>output\<close>.
\<close>

definition tools_installed :: "jstring \<Rightarrow> jstring \<Rightarrow> node \<Rightarrow> jstring option \<times> node" where
  "tools_installed version cmd t =
     (if cmd = js ''node --version'' then (Some version, t)
      else if cmd = js ''node scripts/run-conversion.js''
      then (Some [], case t of Dir es \<Rightarrow> Dir (AList.update (js ''output'') converted_output es)
                     | File c \<Rightarrow> File c)
      else (Some [], t))"

definition no_tools :: "jstring \<Rightarrow> node \<Rightarrow> jstring option \<times> node" where
  "no_tools cmd t = (None, t)"

text \<open>The same project with a directory where the report is to be written.\<close>

definition blocked_project :: node where
  "blocked_project =
     (case tester_project of
        Dir es \<Rightarrow> Dir (es @ [(js ''workflow-test-report.json'', Dir [])])
      | File c \<Rightarrow> File c)"

section \<open>Properties of the string functions\<close>

lemma str_includes_sublist: "str_includes s pat \<longleftrightarrow> sublist pat s"
  by (induction s) (auto simp: sublist_Cons_right)

lemma replace_all_match:
  "pat \<noteq> [] \<Longrightarrow> replace_all pat rep (pat @ w) = rep @ replace_all pat rep w"
  by (cases pat) simp_all





section \<open>Properties of the file system\<close>

lemma readFileSync_write_same:
  "writeFileSync t p c = Some t' \<Longrightarrow> readFileSync t' p = Some c"
proof (induction t p c arbitrary: t' rule: writeFileSync.induct)
  case (4 es x xs c)
  show ?case
  proof (cases "map_of es x")
    case None
    with 4(2) show ?thesis
      by (auto simp: readFileSync_def map_add_def split: if_splits)
  next
    case (Some n)
    with 4(2) obtain n' where n': "writeFileSync n xs c = Some n'"
      and t': "t' = Dir (AList.update x n' es)"
      by (auto split: option.splits)
    from 4(1)[OF Some n'] t' show ?thesis
      by (simp add: readFileSync_def update_conv')
  qed
qed (auto simp: readFileSync_def)


lemma readFileSync_write_other:
  "writeFileSync t p c = Some t' \<Longrightarrow> q \<noteq> p \<Longrightarrow> readFileSync t' q = readFileSync t q"
proof (induction t p c arbitrary: t' q rule: writeFileSync.induct)
  case (1 old c)
  then show ?case by (cases q) (auto simp: readFileSync_def)
next
  case (4 es x xs c)
  show ?case
  proof (cases q)
    case Nil
    with 4 show ?thesis by (auto simp: readFileSync_def split: option.splits if_splits)
  next
    case (Cons y ys)
    show ?thesis
    proof (cases "map_of es x")
      case None
      with 4 Cons show ?thesis
        by (cases ys) (auto simp: readFileSync_def map_add_def split: option.splits if_splits)
    next
      case (Some n)
      with 4(2) obtain n' where n': "writeFileSync n xs c = Some n'"
        and t': "t' = Dir (AList.update x n' es)"
        by (auto split: option.splits)
      show ?thesis
      proof (cases "y = x")
        case True
        with 4(3) Cons have "ys \<noteq> xs" by simp
        from 4(1)[OF Some n' this] True Some t' Cons show ?thesis
          by (simp add: readFileSync_def update_conv')
      next
        case False
        with t' Cons show ?thesis by (simp add: readFileSync_def update_conv')
      qed
    qed
  qed
qed auto

section \<open>The reference rewrite of the entry files\<close>






section \<open>The rewrite of the lint configuration\<close>

lemma split_on_ne: "split_on sep s \<noteq> []"
  by (induction s) (auto split: list.splits)

lemma split_on_no_sep: "w \<in> set (split_on sep s) \<Longrightarrow> sep \<notin> set w"
  by (induction s arbitrary: w) (auto split: list.splits if_splits)

lemma split_on_plain: "sep \<notin> set w \<Longrightarrow> split_on sep w = [w]"
  by (induction w) auto

lemma split_on_append: "sep \<notin> set w \<Longrightarrow> split_on sep (w @ sep # r) = w # split_on sep r"
  by (induction w) auto

lemma set_trim: "set (trim s) \<subseteq> set s"
  by (auto simp: trim_def dest!: set_dropWhileD)

lemma dropWhile_id: "xs = [] \<or> \<not> P (hd xs) \<Longrightarrow> dropWhile P xs = xs"
  by (cases xs) auto

lemma trim_trim: "trim (trim s) = trim s"
proof -
  define w where "w = dropWhile is_space s"
  define z where "z = dropWhile is_space (rev w)"
  have w: "w = [] \<or> \<not> is_space (hd w)" unfolding w_def by (metis hd_dropWhile)
  have "rev w = takeWhile is_space (rev w) @ z" unfolding z_def by simp
  then have "rev (rev w) = rev z @ rev (takeWhile is_space (rev w))"
    by (metis rev_append)
  then have eq: "w = rev z @ rev (takeWhile is_space (rev w))" by simp
  have "rev z = [] \<or> \<not> is_space (hd (rev z))"
  proof (cases "rev z = []")
    case False
    with eq have "hd (rev z) = hd w" and "w \<noteq> []" by (metis hd_append2, auto)
    with w show ?thesis by auto
  qed simp
  then have "dropWhile is_space (rev z) = rev z" by (rule dropWhile_id)
  moreover have "dropWhile is_space z = z" unfolding z_def by (rule dropWhile_idem)
  ultimately show ?thesis by (simp add: trim_def w_def[symmetric] z_def[symmetric])
qed

lemma trim_space: "is_space c \<Longrightarrow> trim (c # s) = trim s"
  by (simp add: trim_def)

lemma split_on_join:
  "items \<noteq> [] \<Longrightarrow> \<forall>i\<in>set items. 0x2C \<notin> set i \<Longrightarrow>
   split_on 0x2C (join [0x2C, 0x20] items) = hd items # map ((#) 0x20) (tl items)"
proof (induction "[0x2C, 0x20 :: 16 word]" items rule: join.induct)
  case 1
  then show ?case by simp
next
  case (2 x)
  then show ?case by (simp add: split_on_plain)
next
  case (3 x y ys)
  then have ih: "split_on 0x2C (join [0x2C, 0x20] (y # ys)) = y # map ((#) 0x20) ys"
    by simp
  have "split_on 0x2C (join [0x2C, 0x20] (x # y # ys))
        = split_on 0x2C (x @ 0x2C # (0x20 # join [0x2C, 0x20] (y # ys)))"
    by simp
  also have "\<dots> = x # split_on 0x2C (0x20 # join [0x2C, 0x20] (y # ys))"
    using 3(3) by (intro split_on_append) simp
  also have "split_on 0x2C (0x20 # join [0x2C, 0x20] (y # ys)) = (0x20 # y) # map ((#) 0x20) ys"
    using ih by simp
  finally show ?case by simp
qed

lemma is_space_blank: "is_space 0x20"
  by (simp add: is_space_def)

lemma trim_blank: "trim (0x20 # s) = trim s"
  by (rule trim_space[OF is_space_blank])

text \<open>The kept items, read back from the text in which they were joined.\<close>

lemma items_read_back:
  assumes "\<forall>i\<in>set items. 0x2C \<notin> set i \<and> trim i = i \<and> i \<noteq> []"
  shows "filter (\<lambda>i. i \<noteq> []) (map trim (split_on 0x2C (join [0x2C, 0x20] items))) = items"
proof (cases items)
  case Nil
  then show ?thesis by (simp add: trim_def)
next
  case (Cons a as)
  have "split_on 0x2C (join [0x2C, 0x20] items) = a # map ((#) 0x20) as"
    using split_on_join[of items] assms Cons by simp
  moreover have "map trim (a # map ((#) 0x20) as) = a # as"
  proof -
    have "\<forall>x\<in>set as. (trim \<circ> (#) 0x20) x = x"
      using assms Cons by (simp add: trim_blank)
    then have "map (trim \<circ> (#) 0x20) as = as" by (simp add: map_idI)
    with assms Cons show ?thesis by simp
  qed
  ultimately show ?thesis using assms Cons by (simp add: filter_id_conv)
qed

lemma kept_items:
  assumes "i \<in> set (filter keep_ignore (map trim (split_on 0x2C l)))"
  shows "0x2C \<notin> set i \<and> trim i = i \<and> i \<noteq> [] \<and> keep_ignore i"
proof -
  from assms obtain w where w: "w \<in> set (split_on 0x2C l)" and i: "i = trim w" and k: "keep_ignore i"
    by auto
  from w have "0x2C \<notin> set w" by (rule split_on_no_sep)
  with set_trim[of w] i have "0x2C \<notin> set i" by auto
  moreover from i have "trim i = i" by (simp add: trim_trim)
  moreover from k have "i \<noteq> []" by (simp add: keep_ignore_def)
  ultimately show ?thesis using k by simp
qed

lemma comma_blank: "js '', '' = [0x2C, 0x20]"
  by (simp add: js_def)

lemma newIgnores_fixed: "newIgnores (newIgnores l) = newIgnores l"
proof -
  let ?items = "filter keep_ignore (map trim (split_on 0x2C l))"
  have r: "filter (\<lambda>i. i \<noteq> []) (map trim (split_on 0x2C (join [0x2C, 0x20] ?items))) = ?items"
    by (rule items_read_back) (use kept_items in blast)
  have "filter keep_ignore (map trim (split_on 0x2C (join [0x2C, 0x20] ?items)))
        = filter keep_ignore (filter (\<lambda>i. i \<noteq> []) (map trim (split_on 0x2C (join [0x2C, 0x20] ?items))))"
    by (auto simp: keep_ignore_def intro: filter_cong)
  also have "\<dots> = ?items" unfolding r by simp
  finally show ?thesis by (simp add: newIgnores_def comma_blank)
qed

lemma set_join: "set (join sep items) \<subseteq> set sep \<union> \<Union> (set ` set items)"
  by (induction sep items rule: join.induct) auto

lemma set_split_on: "w \<in> set (split_on sep s) \<Longrightarrow> set w \<subseteq> set s"
proof (induction s arbitrary: w)
  case Nil
  then show ?case by simp
next
  case (Cons c cs)
  show ?case
  proof (cases "c = sep")
    case True
    with Cons show ?thesis by auto
  next
    case False
    obtain v vs where v: "split_on sep cs = v # vs"
      using split_on_ne[of sep cs] by (cases "split_on sep cs") auto
    with Cons.prems False have "w = c # v \<or> w \<in> set vs" by simp
    moreover have "set v \<subseteq> set cs" using Cons.IH[of v] v by simp
    moreover have "w \<in> set vs \<Longrightarrow> set w \<subseteq> set cs" using Cons.IH[of w] v by simp
    ultimately show ?thesis by auto
  qed
qed

lemma set_newIgnores: "set (newIgnores l) \<subseteq> set l \<union> {0x2C, 0x20}"
proof
  fix c assume "c \<in> set (newIgnores l)"
  then have "c \<in> set [0x2C, 0x20] \<union> \<Union> (set ` set (filter keep_ignore (map trim (split_on 0x2C l))))"
    using set_join unfolding newIgnores_def comma_blank by blast
  then show "c \<in> set l \<union> {0x2C, 0x20}"
    using set_trim set_split_on by fastforce
qed

lemma ignores_literals:
  "js ''ignores:'' = [0x69, 0x67, 0x6E, 0x6F, 0x72, 0x65, 0x73, 0x3A]"
  "js ''ignores: ['' = [0x69, 0x67, 0x6E, 0x6F, 0x72, 0x65, 0x73, 0x3A, 0x20, 0x5B]"
  "js '']'' = [0x5D]"
  by (simp_all add: js_def)

lemma match_ignores_intro:
  assumes "\<forall>c\<in>set ws. is_space c" and "0x5D \<notin> set inner"
  shows "match_ignores (js ''ignores:'' @ ws @ 0x5B # inner @ 0x5D # rest) = Some (inner, rest)"
proof -
  have nb: "\<not> is_space 0x5B" by (simp add: is_space_def)
  have 1: "dropWhile is_space (ws @ 0x5B # inner @ 0x5D # rest) = 0x5B # inner @ 0x5D # rest"
    using assms(1) nb by (simp add: dropWhile_append2)
  have 2: "dropWhile (\<lambda>c. c \<noteq> 0x5D) (inner @ 0x5D # rest) = 0x5D # rest"
    using assms(2) by (subst dropWhile_append2) auto
  have 3: "takeWhile (\<lambda>c. c \<noteq> 0x5D) (inner @ 0x5D # rest) = inner"
    using assms(2) by (subst takeWhile_append2) auto
  show ?thesis
    unfolding match_ignores_def by (simp add: 1 2 3)
qed

lemma match_ignores_elim:
  assumes "match_ignores s = Some (inner, rest)"
  shows "\<exists>ws. s = js ''ignores:'' @ ws @ 0x5B # inner @ 0x5D # rest
           \<and> (\<forall>c\<in>set ws. is_space c) \<and> 0x5D \<notin> set inner"
proof -
  from assms obtain s1 where s: "s = js ''ignores:'' @ s1"
    by (auto simp: match_ignores_def prefix_def split: if_splits)
  define ws where "ws = takeWhile is_space s1"
  from assms s obtain r where r: "dropWhile is_space s1 = 0x5B # r"
    by (auto simp: match_ignores_def split: if_splits list.splits)
  from assms s r obtain d where d: "dropWhile (\<lambda>c. c \<noteq> 0x5D) r = d # rest"
    and inner: "inner = takeWhile (\<lambda>c. c \<noteq> 0x5D) r"
    by (auto simp: match_ignores_def split: if_splits list.splits)
  have "d = 0x5D" using hd_dropWhile[of "\<lambda>c. c \<noteq> 0x5D" r] d by auto
  with d inner have "r = inner @ 0x5D # rest"
    by (metis takeWhile_dropWhile_id)
  moreover have "s1 = ws @ 0x5B # r"
    unfolding ws_def using r by (metis takeWhile_dropWhile_id)
  moreover have "\<forall>c\<in>set ws. is_space c"
    unfolding ws_def by (auto dest: set_takeWhileD)
  moreover have "0x5D \<notin> set inner"
    unfolding inner by (auto dest: set_takeWhileD)
  ultimately show ?thesis using s by auto
qed

lemma match_ignores_no_bracket: "0x5D \<notin> set s \<Longrightarrow> match_ignores s = None"
proof (rule ccontr)
  assume nb: "0x5D \<notin> set s" and "match_ignores s \<noteq> None"
  then obtain inner rest where "match_ignores s = Some (inner, rest)" by auto
  from match_ignores_elim[OF this] nb show False by auto
qed

lemma rewrite_ignores_no_bracket: "0x5D \<notin> set s \<Longrightarrow> rewrite_ignores s = s"
proof (induction s)
  case (Cons c cs)
  then have "match_ignores (c # cs) = None" by (intro match_ignores_no_bracket)
  with Cons show ?case by simp
qed simp

lemma prefix_rewrite_ignores_back:
  "0x69 \<notin> set q \<Longrightarrow> prefix q (rewrite_ignores s) \<Longrightarrow> prefix q s"
proof (induction q arbitrary: s)
  case Nil
  then show ?case by simp
next
  case (Cons a q)
  show ?case
  proof (cases s)
    case Nil
    with Cons.prems show ?thesis by simp
  next
    case s: (Cons d ds)
    show ?thesis
    proof (cases "match_ignores (d # ds)")
      case None
      with Cons.prems s Cons.IH[of ds] show ?thesis by auto
    next
      case (Some m)
      with Cons.prems s show ?thesis
        by (cases m) (auto simp: ignores_literals)
    qed
  qed
qed

text \<open>
  The search does not find, in the rewritten text, a match that starts before the one it
  found in the original text.
\<close>

lemma match_ignores_rewritten_tail:
  assumes "match_ignores (c # cs) = None"
  shows "match_ignores (c # rewrite_ignores cs) = None"
proof (rule ccontr)
  assume "match_ignores (c # rewrite_ignores cs) \<noteq> None"
  then obtain inner rest where "match_ignores (c # rewrite_ignores cs) = Some (inner, rest)"
    by auto
  from match_ignores_elim[OF this] obtain ws where
    eq: "c # rewrite_ignores cs = js ''ignores:'' @ ws @ 0x5B # inner @ 0x5D # rest"
    and ws: "\<forall>c\<in>set ws. is_space c" and inner: "0x5D \<notin> set inner"
    by blast
  define q where "q = [0x67, 0x6E, 0x6F, 0x72, 0x65, 0x73, 0x3A] @ ws @ [0x5B :: 16 word]"
  from eq have c: "c = 0x69" and tl: "rewrite_ignores cs = q @ inner @ 0x5D # rest"
    by (simp_all add: ignores_literals q_def)
  have "\<not> is_space 0x69" by (simp add: is_space_def)
  with ws have "0x69 \<notin> set q" by (auto simp: q_def)
  moreover have "prefix q (rewrite_ignores cs)" using tl by simp
  ultimately have "prefix q cs" by (rule prefix_rewrite_ignores_back)
  then obtain t where t: "cs = q @ t" by (auto simp: prefix_def)
  have nbq: "0x5D \<notin> set q"
  proof -
    have "\<not> is_space 0x5D" by (simp add: is_space_def)
    with ws show ?thesis by (auto simp: q_def)
  qed
  have "0x5D \<in> set t"
  proof (rule ccontr)
    assume "0x5D \<notin> set t"
    with nbq t have "0x5D \<notin> set cs" by simp
    then have "rewrite_ignores cs = cs" by (rule rewrite_ignores_no_bracket)
    with tl t have "t = inner @ 0x5D # rest" by simp
    with \<open>0x5D \<notin> set t\<close> show False by simp
  qed
  then obtain inner' rest' where "t = inner' @ 0x5D # rest'" and "0x5D \<notin> set inner'"
    using split_list_first[of "0x5D" t] by blast
  with c t have "c # cs = js ''ignores:'' @ ws @ 0x5B # inner' @ 0x5D # rest'"
    by (simp add: ignores_literals q_def)
  then have "match_ignores (c # cs) = Some (inner', rest')"
    using match_ignores_intro[OF ws \<open>0x5D \<notin> set inner'\<close>, of rest'] by (simp only:)
  with assms show False by simp
qed

lemma match_ignores_rewritten_head:
  assumes "match_ignores s = Some (l, rest)"
  shows "match_ignores (js ''ignores: ['' @ newIgnores l @ js '']'' @ rest) = Some (newIgnores l, rest)"
proof -
  from match_ignores_elim[OF assms] have "0x5D \<notin> set l" by auto
  with set_newIgnores[of l] have nb: "0x5D \<notin> set (newIgnores l)" by auto
  have "js ''ignores: ['' @ newIgnores l @ js '']'' @ rest
        = js ''ignores:'' @ [0x20] @ 0x5B # newIgnores l @ 0x5D # rest"
    by (simp add: ignores_literals)
  moreover have "\<forall>c\<in>set [0x20 :: 16 word]. is_space c" by (simp add: is_space_def)
  ultimately show ?thesis using match_ignores_intro[OF _ nb] by metis
qed

lemma literal_head: "js ''ignores: ['' @ x = 0x69 # tl (js ''ignores: ['') @ x"
  by (simp add: ignores_literals)

lemma rewrite_ignores_idem: "rewrite_ignores (rewrite_ignores s) = rewrite_ignores s"
proof (induction s)
  case Nil
  show ?case by simp
next
  case (Cons c cs)
  show ?case
  proof (cases "match_ignores (c # cs)")
    case None
    with match_ignores_rewritten_tail[OF None] Cons show ?thesis by simp
  next
    case (Some m)
    obtain l rest where m: "m = (l, rest)" by (cases m)
    let ?s' = "js ''ignores: ['' @ newIgnores l @ js '']'' @ rest"
    have s': "rewrite_ignores (c # cs) = ?s'" using Some m by simp
    have "match_ignores ?s' = Some (newIgnores l, rest)"
      using match_ignores_rewritten_head Some m by simp
    then have "rewrite_ignores ?s' = js ''ignores: ['' @ newIgnores (newIgnores l) @ js '']'' @ rest"
      by (subst (asm) literal_head, subst literal_head) simp
    then have "rewrite_ignores ?s' = ?s'" by (simp only: newIgnores_fixed)
    then show ?thesis unfolding s' .
  qed
qed

lemma exec_ignores_rewrite:
  "exec_ignores s = Some (before, l, rest) \<Longrightarrow>
   rewrite_ignores s = before @ js ''ignores: ['' @ newIgnores l @ js '']'' @ rest"
proof (induction s arbitrary: before)
  case Nil
  then show ?case by simp
next
  case (Cons c cs)
  then show ?case
    by (cases "match_ignores (c # cs)") auto
qed

lemma exec_ignores_none: "exec_ignores s = None \<Longrightarrow> rewrite_ignores s = s"
  by (induction s) (auto split: option.splits)

lemma exec_ignores_rewritten:
  "exec_ignores s = Some (before, l, rest) \<Longrightarrow>
   exec_ignores (rewrite_ignores s) = Some (before, newIgnores l, rest)"
proof (induction s arbitrary: before)
  case Nil
  then show ?case by simp
next
  case (Cons c cs)
  show ?case
  proof (cases "match_ignores (c # cs)")
    case None
    with Cons.prems obtain b where b: "exec_ignores cs = Some (b, l, rest)" and "before = c # b"
      by auto
    with Cons.IH[OF b] match_ignores_rewritten_tail[OF None] None show ?thesis by simp
  next
    case (Some m)
    with Cons.prems have m: "m = (l, rest)" and "before = []" by (cases m; simp)+
    let ?s' = "js ''ignores: ['' @ newIgnores l @ js '']'' @ rest"
    have s': "rewrite_ignores (c # cs) = ?s'" using Some m by simp
    have "match_ignores ?s' = Some (newIgnores l, rest)"
      using match_ignores_rewritten_head Some m by simp
    then have "exec_ignores ?s' = Some ([], newIgnores l, rest)"
      by (subst (asm) literal_head, subst literal_head) simp
    with s' \<open>before = []\<close> show ?thesis by simp
  qed
qed

lemma join_head: "join sep ((c # w) # ws) = c # join sep (w # ws)"
  by (cases ws) simp_all

lemma join_split_on: "join [sep] (split_on sep s) = s"
proof (induction s)
  case Nil
  show ?case by simp
next
  case (Cons c cs)
  obtain w ws where w: "split_on sep cs = w # ws"
    using split_on_ne[of sep cs] by (cases "split_on sep cs") auto
  with Cons show ?case by (auto simp: join_head)
qed

lemma trim_parts:
  "\<exists>a b. p = a @ trim p @ b \<and> (\<forall>c\<in>set a. is_space c) \<and> (\<forall>c\<in>set b. is_space c)"
proof -
  let ?a = "takeWhile is_space p" and ?w = "dropWhile is_space p"
  let ?b = "rev (takeWhile is_space (rev ?w))"
  have "rev ?w = takeWhile is_space (rev ?w) @ dropWhile is_space (rev ?w)"
    by simp
  then have "rev (rev ?w) = rev (dropWhile is_space (rev ?w)) @ ?b"
    by (metis rev_append)
  then have "?w = trim p @ ?b"
    by (simp add: trim_def)
  then have "p = ?a @ trim p @ ?b"
    by (metis takeWhile_dropWhile_id)
  moreover have "\<forall>c\<in>set ?a. is_space c"
    by (auto dest: set_takeWhileD)
  moreover have "\<forall>c\<in>set ?b. is_space c"
    by (auto dest: set_takeWhileD)
  ultimately show ?thesis by blast
qed

lemma trim_last: "trim p \<noteq> [] \<Longrightarrow> \<not> is_space (last (trim p))"
proof -
  assume ne: "trim p \<noteq> []"
  let ?z = "dropWhile is_space (rev (dropWhile is_space p))"
  from ne have z: "?z \<noteq> []" by (simp add: trim_def)
  then have "\<not> is_space (hd ?z)" by (rule hd_dropWhile)
  moreover have "last (trim p) = hd ?z"
    using z by (simp add: trim_def last_rev)
  ultimately show ?thesis by simp
qed

lemma trim_hd: "trim p \<noteq> [] \<Longrightarrow> \<not> is_space (hd (trim p))"
proof -
  assume ne: "trim p \<noteq> []"
  have t: "trim (trim p) = trim p" by (rule trim_trim)
  show ?thesis
  proof
    assume "is_space (hd (trim p))"
    with ne obtain c r where cr: "trim p = c # r" and c: "is_space c"
      by (cases "trim p") auto
    have "trim (c # r) = trim r" using c by (rule trim_space)
    with t cr have "trim r = c # r" by simp
    then have "length (c # r) \<le> length r"
      by (metis length_dropWhile_le length_rev trim_def order_trans)
    then show False by simp
  qed
qed

lemma exec_ignores_elim:
  "exec_ignores s = Some (before, l, rest) \<Longrightarrow>
   \<exists>ws. s = before @ js ''ignores:'' @ ws @ 0x5B # l @ 0x5D # rest
        \<and> (\<forall>c\<in>set ws. is_space c) \<and> 0x5D \<notin> set l"
proof (induction s arbitrary: before)
  case Nil
  then show ?case by simp
next
  case (Cons c cs)
  show ?case
  proof (cases "match_ignores (c # cs)")
    case None
    with Cons.prems obtain b where b: "exec_ignores cs = Some (b, l, rest)" and "before = c # b"
      by auto
    with Cons.IH[OF b] show ?thesis by auto
  next
    case (Some m)
    with Cons.prems have m: "match_ignores (c # cs) = Some (l, rest)" and "before = []"
      by (cases m; simp)+
    with match_ignores_elim[OF m] show ?thesis by auto
  qed
qed

text \<open>
  C7, as amended. Let the expression \<open>/ignores:\s*\[([^\]]*)]/\<close> match in the lint
  configuration; \<open>before\<close>, \<open>l\<close> and \<open>rest\<close> are the text before its first match, the text
  between the brackets, which ends at the first \<open>]\<close>, and the text behind the match.
  The rewrite changes nothing but this first match. It cuts \<open>l\<close> at every comma and strips
  the white space around each piece; it removes the pieces that are empty or contain one
  of \<open>'output'\<close>, \<open>"output"\<close>, \<open>'output/\<close> and \<open>"output/\<close>, and keeps every other piece, in
  the order of \<open>l\<close>, joined by a comma and a blank. The kept pieces are read back from the
  rewritten content as they are.
\<close>

theorem ignores_entries_filtered:
  assumes "exec_ignores content = Some (before, l, rest)"
  shows "let kept = filter (\<lambda>item. item \<noteq> []
                \<and> \<not> sublist ([0x27] @ js ''output'' @ [0x27]) item
                \<and> \<not> sublist ([0x22] @ js ''output'' @ [0x22]) item
                \<and> \<not> sublist ([0x27] @ js ''output/'') item
                \<and> \<not> sublist ([0x22] @ js ''output/'') item)
              (map trim (split_on 0x2C l))
         in (\<exists>ws. content = before @ js ''ignores:'' @ ws @ [0x5B] @ l @ [0x5D] @ rest
                 \<and> (\<forall>c\<in>set ws. is_space c))
            \<and> 0x5D \<notin> set l
            \<and> rewrite_ignores content
                = before @ js ''ignores: ['' @ join (js '', '') kept @ js '']'' @ rest
            \<and> exec_ignores (rewrite_ignores content) = Some (before, join (js '', '') kept, rest)
            \<and> filter (\<lambda>item. item \<noteq> []) (map trim (split_on 0x2C (join (js '', '') kept))) = kept
            \<and> join [0x2C] (split_on 0x2C l) = l
            \<and> (\<forall>p\<in>set (split_on 0x2C l). 0x2C \<notin> set p
                 \<and> (\<exists>a b. p = a @ trim p @ b \<and> (\<forall>c\<in>set a. is_space c) \<and> (\<forall>c\<in>set b. is_space c)))
            \<and> (\<forall>k\<in>set kept. \<not> is_space (hd k) \<and> \<not> is_space (last k))"
proof -
  define kept where "kept = filter (\<lambda>item. item \<noteq> []
                \<and> \<not> sublist ([0x27] @ js ''output'' @ [0x27]) item
                \<and> \<not> sublist ([0x22] @ js ''output'' @ [0x22]) item
                \<and> \<not> sublist ([0x27] @ js ''output/'') item
                \<and> \<not> sublist ([0x22] @ js ''output/'') item)
              (map trim (split_on 0x2C l))"
  have k: "kept = filter keep_ignore (map trim (split_on 0x2C l))"
    unfolding kept_def
    by (rule filter_cong) (simp_all add: keep_ignore_def str_includes_sublist squote_def dquote_def)
  then have n: "newIgnores l = join (js '', '') kept"
    by (simp add: newIgnores_def)
  from exec_ignores_elim[OF assms]
  have 0: "\<exists>ws. content = before @ js ''ignores:'' @ ws @ [0x5B] @ l @ [0x5D] @ rest
         \<and> (\<forall>c\<in>set ws. is_space c)" and nb: "0x5D \<notin> set l"
    by auto
  have 1: "rewrite_ignores content = before @ js ''ignores: ['' @ join (js '', '') kept @ js '']'' @ rest"
    using exec_ignores_rewrite[OF assms] n by simp
  have 2: "exec_ignores (rewrite_ignores content) = Some (before, join (js '', '') kept, rest)"
    using exec_ignores_rewritten[OF assms] n by simp
  have 3: "filter (\<lambda>item. item \<noteq> []) (map trim (split_on 0x2C (join (js '', '') kept))) = kept"
    unfolding k comma_blank
    by (rule items_read_back) (use kept_items in blast)
  have 4: "join [0x2C] (split_on 0x2C l) = l"
    by (rule join_split_on)
  have 5: "\<forall>p\<in>set (split_on 0x2C l). 0x2C \<notin> set p
       \<and> (\<exists>a b. p = a @ trim p @ b \<and> (\<forall>c\<in>set a. is_space c) \<and> (\<forall>c\<in>set b. is_space c))"
    using split_on_no_sep trim_parts by blast
  have 6: "\<forall>k\<in>set kept. \<not> is_space (hd k) \<and> \<not> is_space (last k)"
  proof
    fix i assume "i \<in> set kept"
    then obtain p where "i = trim p" and "i \<noteq> []"
      unfolding kept_def by auto
    then show "\<not> is_space (hd i) \<and> \<not> is_space (last i)"
      using trim_hd[of p] trim_last[of p] by simp
  qed
  from 0 nb 1 2 3 4 5 6 show ?thesis
    unfolding Let_def kept_def[symmetric] by blast
qed

theorem ignores_entries_filtered_witness:
  \<open>exec_ignores (js ''x ignores: [ 'a' ,'output', "output/b", 'c'];'')
     = Some (js ''x '', js '' 'a' ,'output', "output/b", 'c'' @ [0x27], js '';'')
   \<and> rewrite_ignores (js ''x ignores: [ 'a' ,'output', "output/b", 'c'];'')
       = js ''x ignores: ['a', 'c'];''
   \<and> exec_ignores (rewrite_ignores (js ''x ignores: [ 'a' ,'output', "output/b", 'c'];''))
       = Some (js ''x '', js '''a', 'c'' @ [0x27], js '';'')\<close>
proof -
  let ?l = \<open>js '' 'a' ,'output', "output/b", 'c'' @ [0x27]\<close>
  have h: \<open>exec_ignores (js ''x ignores: [ 'a' ,'output', "output/b", 'c'];'')
     = Some (js ''x '', ?l, js '';'')\<close>
    by code_simp
  have k: \<open>filter (\<lambda>item. item \<noteq> []
                \<and> \<not> sublist ([0x27] @ js ''output'' @ [0x27]) item
                \<and> \<not> sublist ([0x22] @ js ''output'' @ [0x22]) item
                \<and> \<not> sublist ([0x27] @ js ''output/'') item
                \<and> \<not> sublist ([0x22] @ js ''output/'') item)
              (map trim (split_on 0x2C ?l)) = [js '''a'' @ [0x27], js '''c'' @ [0x27]]\<close>
    unfolding str_includes_sublist[symmetric] by code_simp
  have j: \<open>js ''x '' @ js ''ignores: ['' @ join (js '', '') [js '''a'' @ [0x27], js '''c'' @ [0x27]]
             @ js '']'' @ js '';'' = js ''x ignores: ['a', 'c'];''\<close>
    by code_simp
  have j': \<open>join (js '', '') [js '''a'' @ [0x27], js '''c'' @ [0x27]] = js '''a', 'c'' @ [0x27]\<close>
    by code_simp
  note t = ignores_entries_filtered[OF h, unfolded Let_def k]
  from t have \<open>rewrite_ignores (js ''x ignores: [ 'a' ,'output', "output/b", 'c'];'')
          = js ''x '' @ js ''ignores: ['' @ join (js '', '') [js '''a'' @ [0x27], js '''c'' @ [0x27]]
             @ js '']'' @ js '';''\<close>
    by blast
  then have r: \<open>rewrite_ignores (js ''x ignores: [ 'a' ,'output', "output/b", 'c'];'')
          = js ''x ignores: ['a', 'c'];''\<close>
    by (simp only: j)
  from t have \<open>exec_ignores (rewrite_ignores (js ''x ignores: [ 'a' ,'output', "output/b", 'c'];''))
          = Some (js ''x '', join (js '', '') [js '''a'' @ [0x27], js '''c'' @ [0x27]], js '';'')\<close>
    by blast
  then have e: \<open>exec_ignores (rewrite_ignores (js ''x ignores: [ 'a' ,'output', "output/b", 'c'];''))
          = Some (js ''x '', js '''a', 'c'' @ [0x27], js '';'')\<close>
    by (simp only: j')
  from h r e show ?thesis
    by blast
qed

text \<open>
  The claim as it stands fails. The entry \<open>'./output'\<close> names the staging directory and
  is kept; the entry \<open>'**/*.{js,jsx}'\<close> does not name it and is changed, because the cut
  at the commas goes through it; and of two \<open>ignores\<close> arrays the second is left as it is,
  with its entry \<open>'output'\<close>.
\<close>

theorem ignores_entries_counterexample:
  \<open>rewrite_ignores (js ''export default [{ ignores: ['./output', 'vendor'] }];'')
     = js ''export default [{ ignores: ['./output', 'vendor'] }];''
   \<and> array_entries (js '''./output', 'vendor'' @ [0x27])
       = [js '''./output'' @ [0x27], js '''vendor'' @ [0x27]]
   \<and> names_output (js '''./output'' @ [0x27])
   \<and> rewrite_ignores (js ''ignores: ['**/*.{js,jsx}', 'output']'')
       = js ''ignores: ['**/*.{js, jsx}']''
   \<and> filter (\<lambda>e. \<not> names_output e) (array_entries (js '''**/*.{js,jsx}', 'output'' @ [0x27]))
       = [js '''**/*.{js,jsx}'' @ [0x27]]
   \<and> array_entries (js '''**/*.{js, jsx}'' @ [0x27]) = [js '''**/*.{js, jsx}'' @ [0x27]]
   \<and> js '''**/*.{js, jsx}'' @ [0x27] \<noteq> js '''**/*.{js,jsx}'' @ [0x27]
   \<and> rewrite_ignores (js ''[{ ignores: ['a'] }, { ignores: ['output'] }]'')
       = js ''[{ ignores: ['a'] }, { ignores: ['output'] }]''
   \<and> names_output (js '''output'' @ [0x27])\<close>
proof -
  have 1: \<open>rewrite_ignores (js ''export default [{ ignores: ['./output', 'vendor'] }];'')
     = js ''export default [{ ignores: ['./output', 'vendor'] }];''\<close>
    by code_simp
  have 2: \<open>array_entries (js '''./output', 'vendor'' @ [0x27])
       = [js '''./output'' @ [0x27], js '''vendor'' @ [0x27]]\<close>
    by code_simp
  have 3: \<open>names_output (js '''./output'' @ [0x27])\<close>
    by code_simp
  have 4: \<open>rewrite_ignores (js ''ignores: ['**/*.{js,jsx}', 'output']'')
       = js ''ignores: ['**/*.{js, jsx}']''\<close>
    by code_simp
  have 5: \<open>filter (\<lambda>e. \<not> names_output e) (array_entries (js '''**/*.{js,jsx}', 'output'' @ [0x27]))
       = [js '''**/*.{js,jsx}'' @ [0x27]]\<close>
    by code_simp
  have 6: \<open>array_entries (js '''**/*.{js, jsx}'' @ [0x27]) = [js '''**/*.{js, jsx}'' @ [0x27]]\<close>
    by code_simp
  have 7: \<open>js '''**/*.{js, jsx}'' @ [0x27] \<noteq> js '''**/*.{js,jsx}'' @ [0x27]\<close>
    by code_simp
  have 8: \<open>rewrite_ignores (js ''[{ ignores: ['a'] }, { ignores: ['output'] }]'')
       = js ''[{ ignores: ['a'] }, { ignores: ['output'] }]''\<close>
    by code_simp
  have 9: \<open>names_output (js '''output'' @ [0x27])\<close>
    by code_simp
  from 1 2 3 4 5 6 7 8 9 show ?thesis
    by blast
qed

section \<open>The rewrite of the package metadata\<close>

lemma get_set_prop:
  "get_prop (set_prop p k v) k' = (if (\<exists>es. p = JObj es) \<and> k' = k then Some v else get_prop p k')"
  by (cases p) (simp_all add: update_conv')

lemma get_delete_prop:
  "get_prop (delete_prop p k) k' = (if k' = k then None else get_prop p k')"
  by (cases p) (simp_all add: delete_conv')

lemma key_literals:
  "js ''devDependencies'' \<noteq> js ''name''" "js ''devDependencies'' \<noteq> js ''description''"
  "js ''description'' \<noteq> js ''name''" "js ''name'' \<noteq> js ''description''"
  "js ''name'' \<noteq> js ''devDependencies''"
  by (simp_all add: js_def)

lemma update_name_other:
  "update_name p = Some p1 \<Longrightarrow> k \<noteq> js ''name'' \<Longrightarrow> get_prop p1 k = get_prop p k"
  by (auto simp: update_name_def get_set_prop split: option.splits if_splits json.splits)

lemma update_description_other:
  "update_description p = Some p2 \<Longrightarrow> k \<noteq> js ''description'' \<Longrightarrow> get_prop p2 k = get_prop p k"
  by (auto simp: update_description_def get_set_prop split: option.splits if_splits json.splits)

lemma remove_dependencies_other:
  "k \<noteq> js ''devDependencies'' \<Longrightarrow> get_prop (remove_dependencies p) k = get_prop p k"
  by (auto simp: remove_dependencies_def get_set_prop split: option.splits)

lemma get_foldl_delete:
  "get_prop (foldl delete_prop d ks) k = (if k \<in> set ks then None else get_prop d k)"
  by (induction ks arbitrary: d) (auto simp: get_delete_prop)

lemma foldl_delete_object:
  "(\<exists>ds. foldl delete_prop d ks = JObj ds) \<longleftrightarrow> (\<exists>ds. d = JObj ds)"
proof (induction ks arbitrary: d)
  case (Cons k ks)
  then show ?case by (cases d) simp_all
qed simp

lemma devDependency_get:
  "devDependency p k = (case get_prop p (js ''devDependencies'') of None \<Rightarrow> None | Some d \<Rightarrow> get_prop d k)"
  by (auto simp: devDependency_def split: option.splits json.splits)

lemma devDependency_removed:
  "devDependency (remove_dependencies p) k =
     (if k \<in> set typescript_dependencies then None else devDependency p k)"
proof (cases "get_prop p (js ''devDependencies'')")
  case None
  then show ?thesis by (simp add: remove_dependencies_def devDependency_get)
next
  case (Some d)
  show ?thesis
  proof (cases "truthy d")
    case True
    with Some have obj: "\<exists>es. p = JObj es" by (cases p) auto
    with Some True show ?thesis
      by (simp add: remove_dependencies_def devDependency_get get_set_prop get_foldl_delete)
  next
    case False
    then have "get_prop d k = None" by (cases d) auto
    with Some False show ?thesis
      by (simp add: remove_dependencies_def devDependency_get)
  qed
qed

lemma name_literal:
  "replace_first (js ''react-starter-kit'') (js ''react-jsx-starter-kit'') (js ''vendor/react-starter-kit'')
     = js ''vendor/react-jsx-starter-kit''"
  "str_includes (js ''vendor/react-starter-kit'') (js ''react-starter-kit'')"
  by (simp_all add: js_def)

lemma update_name_vendor:
  assumes "update_name p = Some p1"
    and "get_prop p (js ''name'') = Some (JStr (js ''vendor/react-starter-kit''))"
  shows "get_prop p1 (js ''name'') = Some (JStr (js ''vendor/react-jsx-starter-kit''))"
proof -
  from assms(2) obtain es where "p = JObj es" by (cases p) auto
  moreover have "js ''vendor/react-starter-kit'' \<noteq> []" by (simp add: js_def)
  ultimately show ?thesis
    using assms by (auto simp: update_name_def name_literal update_conv')
qed

lemma well_typed_returns:
  assumes "well_typed_package p"
  shows "\<exists>p'. updatePackageJson p = Some p'"
proof -
  from assms obtain es where p: "p = JObj es" by (auto simp: well_typed_package_def)
  have "update_name p \<noteq> None"
    using assms
    by (auto simp: well_typed_package_def update_name_def split: option.splits json.splits)
  then obtain p1 where p1: "update_name p = Some p1" by auto
  have "get_prop p1 (js ''description'') = get_prop p (js ''description'')"
    by (rule update_name_other[OF p1 key_literals(3)])
  with assms have "update_description p1 \<noteq> None"
    by (auto simp: well_typed_package_def update_description_def split: option.splits json.splits)
  then obtain p2 where "update_description p1 = Some p2" by auto
  with p p1 show ?thesis by (simp add: updatePackageJson_def)
qed

lemma typescript_dependencies_set:
  "k \<in> set typescript_dependencies \<longleftrightarrow>
     k = js ''typescript'' \<or> k = js ''@types/node'' \<or> k = js ''@types/react''
     \<or> k = js ''@types/react-dom''"
  by (auto simp: typescript_dependencies_def)

text \<open>
  C6. For every package-metadata object on which the rewrite returns, and it returns
  on every well-typed one: when the name was \<open>vendor/react-starter-kit\<close>, the new name
  is \<open>vendor/react-jsx-starter-kit\<close>; none of \<open>typescript\<close>, \<open>@types/node\<close>,
  \<open>@types/react\<close> and \<open>@types/react-dom\<close> is an entry of the new \<open>devDependencies\<close>,
  whether or not it was one before; every other entry of \<open>devDependencies\<close> is as it
  was.
\<close>

theorem package_metadata_rewritten:
  "(well_typed_package packageJson \<longrightarrow> (\<exists>p'. updatePackageJson packageJson = Some p')) \<and>
   (\<forall>p'. updatePackageJson packageJson = Some p' \<longrightarrow>
      (get_prop packageJson (js ''name'') = Some (JStr (js ''vendor/react-starter-kit'')) \<longrightarrow>
         get_prop p' (js ''name'') = Some (JStr (js ''vendor/react-jsx-starter-kit''))) \<and>
      devDependency p' (js ''typescript'') = None \<and>
      devDependency p' (js ''@types/node'') = None \<and>
      devDependency p' (js ''@types/react'') = None \<and>
      devDependency p' (js ''@types/react-dom'') = None \<and>
      (\<forall>k. k \<noteq> js ''typescript'' \<and> k \<noteq> js ''@types/node'' \<and> k \<noteq> js ''@types/react''
            \<and> k \<noteq> js ''@types/react-dom'' \<longrightarrow>
         devDependency p' k = devDependency packageJson k))"
proof -
  have returns: "well_typed_package packageJson \<longrightarrow> (\<exists>p'. updatePackageJson packageJson = Some p')"
    using well_typed_returns by blast
  have result:
    "(get_prop packageJson (js ''name'') = Some (JStr (js ''vendor/react-starter-kit'')) \<longrightarrow>
         get_prop p' (js ''name'') = Some (JStr (js ''vendor/react-jsx-starter-kit''))) \<and>
      devDependency p' (js ''typescript'') = None \<and>
      devDependency p' (js ''@types/node'') = None \<and>
      devDependency p' (js ''@types/react'') = None \<and>
      devDependency p' (js ''@types/react-dom'') = None \<and>
      (\<forall>k. k \<noteq> js ''typescript'' \<and> k \<noteq> js ''@types/node'' \<and> k \<noteq> js ''@types/react''
            \<and> k \<noteq> js ''@types/react-dom'' \<longrightarrow>
         devDependency p' k = devDependency packageJson k)"
    if "updatePackageJson packageJson = Some p'" for p'
  proof -
    from that obtain p1 p2 where p1: "update_name packageJson = Some p1"
      and p2: "update_description p1 = Some p2" and p': "p' = remove_dependencies p2"
      by (auto simp: updatePackageJson_def split: option.splits json.splits)
    have dev: "get_prop p2 (js ''devDependencies'') = get_prop packageJson (js ''devDependencies'')"
      using update_name_other[OF p1 key_literals(1)] update_description_other[OF p2 key_literals(2)]
      by simp
    then have dd: "devDependency p2 k = devDependency packageJson k" for k
      by (simp add: devDependency_get)
    have a1: "devDependency p' (js ''typescript'') = None"
      by (simp add: p' devDependency_removed typescript_dependencies_set)
    have a2: "devDependency p' (js ''@types/node'') = None"
      by (simp add: p' devDependency_removed typescript_dependencies_set)
    have a3: "devDependency p' (js ''@types/react'') = None"
      by (simp add: p' devDependency_removed typescript_dependencies_set)
    have a4: "devDependency p' (js ''@types/react-dom'') = None"
      by (simp add: p' devDependency_removed typescript_dependencies_set)
    have b: "\<forall>k. k \<noteq> js ''typescript'' \<and> k \<noteq> js ''@types/node'' \<and> k \<noteq> js ''@types/react''
            \<and> k \<noteq> js ''@types/react-dom'' \<longrightarrow>
         devDependency p' k = devDependency packageJson k"
      by (simp add: p' devDependency_removed dd typescript_dependencies_set)
    have c: "get_prop p' (js ''name'') = Some (JStr (js ''vendor/react-jsx-starter-kit''))"
      if n: "get_prop packageJson (js ''name'') = Some (JStr (js ''vendor/react-starter-kit''))"
    proof -
      have "get_prop p1 (js ''name'') = Some (JStr (js ''vendor/react-jsx-starter-kit''))"
        by (rule update_name_vendor[OF p1 n])
      moreover have "get_prop p2 (js ''name'') = get_prop p1 (js ''name'')"
        by (rule update_description_other[OF p2 key_literals(4)])
      moreover have "get_prop p' (js ''name'') = get_prop p2 (js ''name'')"
        unfolding p' by (rule remove_dependencies_other[OF key_literals(5)])
      ultimately show ?thesis by simp
    qed
    from a1 a2 a3 a4 b c show ?thesis by blast
  qed
  from returns result show ?thesis by blast
qed

theorem package_metadata_rewritten_witness:
  "well_typed_package typed_package
   \<and> get_prop typed_package (js ''name'') = Some (JStr (js ''vendor/react-starter-kit''))
   \<and> devDependency typed_package (js ''typescript'') = Some (JStr (js ''5''))
   \<and> devDependency typed_package (js ''@types/node'') = Some (JStr (js ''22''))
   \<and> devDependency typed_package (js ''@types/react'') = Some (JStr (js ''19''))
   \<and> devDependency typed_package (js ''@types/react-dom'') = Some (JStr (js ''19''))
   \<and> (\<exists>p'. updatePackageJson typed_package = Some p'
         \<and> get_prop p' (js ''name'') = Some (JStr (js ''vendor/react-jsx-starter-kit''))
         \<and> devDependency p' (js ''typescript'') = None
         \<and> devDependency p' (js ''@types/node'') = None
         \<and> devDependency p' (js ''@types/react'') = None
         \<and> devDependency p' (js ''@types/react-dom'') = None
         \<and> devDependency p' (js ''vite'') = Some (JStr (js ''7''))
         \<and> devDependency p' (js ''@types/lodash'') = Some (JStr (js ''4'')))"
proof -
  have wt: "well_typed_package typed_package"
    by (simp add: well_typed_package_def typed_package_def js_def)
  have name: "get_prop typed_package (js ''name'') = Some (JStr (js ''vendor/react-starter-kit''))"
    by (simp add: typed_package_def)
  have before:
    "devDependency typed_package (js ''typescript'') = Some (JStr (js ''5''))"
    "devDependency typed_package (js ''@types/node'') = Some (JStr (js ''22''))"
    "devDependency typed_package (js ''@types/react'') = Some (JStr (js ''19''))"
    "devDependency typed_package (js ''@types/react-dom'') = Some (JStr (js ''19''))"
    "devDependency typed_package (js ''vite'') = Some (JStr (js ''7''))"
    "devDependency typed_package (js ''@types/lodash'') = Some (JStr (js ''4''))"
    by code_simp+
  have other:
    "js ''vite'' \<noteq> js ''typescript'' \<and> js ''vite'' \<noteq> js ''@types/node''
     \<and> js ''vite'' \<noteq> js ''@types/react'' \<and> js ''vite'' \<noteq> js ''@types/react-dom''"
    "js ''@types/lodash'' \<noteq> js ''typescript'' \<and> js ''@types/lodash'' \<noteq> js ''@types/node''
     \<and> js ''@types/lodash'' \<noteq> js ''@types/react'' \<and> js ''@types/lodash'' \<noteq> js ''@types/react-dom''"
    by (simp_all add: js_def)
  from package_metadata_rewritten[of typed_package] wt name obtain p' where
    p': "updatePackageJson typed_package = Some p'"
    and n: "get_prop p' (js ''name'') = Some (JStr (js ''vendor/react-jsx-starter-kit''))"
    and gone: "devDependency p' (js ''typescript'') = None"
      "devDependency p' (js ''@types/node'') = None"
      "devDependency p' (js ''@types/react'') = None"
      "devDependency p' (js ''@types/react-dom'') = None"
    and kept: "\<forall>k. k \<noteq> js ''typescript'' \<and> k \<noteq> js ''@types/node'' \<and> k \<noteq> js ''@types/react''
            \<and> k \<noteq> js ''@types/react-dom'' \<longrightarrow>
         devDependency p' k = devDependency typed_package k"
    by blast
  from kept other before(5,6) have
    "devDependency p' (js ''vite'') = Some (JStr (js ''7''))"
    "devDependency p' (js ''@types/lodash'') = Some (JStr (js ''4''))"
    by simp_all
  with wt name before p' n gone show ?thesis
    by blast
qed

section \<open>Fixed points of the configuration rewrites\<close>

lemma replace_regex_settled: "\<not> matches_somewhere m s \<Longrightarrow> replace_regex m rep s = s"
  by (induction s) auto

lemma replace_all_settled: "\<not> str_includes s pat \<Longrightarrow> replace_all pat rep s = s"
  by (induction s) auto

lemma remove_blank_lines_settled: "\<not> has_blank_line bol s \<Longrightarrow> remove_blank_lines bol s = s"
  by (induction s arbitrary: bol) auto

lemma convert_vite_config_settled:
  "settled_vite_config c \<Longrightarrow> convert_vite_config c = c"
  by (simp add: settled_vite_config_def convert_vite_config_def replace_regex_settled
        replace_all_settled remove_blank_lines_settled)

lemma prefix_append_cases: "prefix q (x @ t) \<Longrightarrow> prefix q x \<or> prefix x q"
  by (auto simp: prefix_append)

lemma str_includes_behind:
  assumes "\<forall>k<length r. \<not> prefix q (drop k r) \<and> \<not> prefix (drop k r) q"
  shows "str_includes (r @ t) q = str_includes t q"
  using assms
proof (induction r)
  case Nil
  show ?case by simp
next
  case (Cons a r)
  from Cons.prems have "\<not> prefix q (a # r) \<and> \<not> prefix (a # r) q"
    by (metis drop0 length_greater_0_conv list.distinct(1))
  then have 1: "\<not> prefix q ((a # r) @ t)"
    using prefix_append_cases by blast
  have "\<forall>k<length r. \<not> prefix q (drop k r) \<and> \<not> prefix (drop k r) q"
  proof (intro allI impI)
    fix k assume "k < length r"
    then have "Suc k < length (a # r)" by simp
    with Cons.prems have "\<not> prefix q (drop (Suc k) (a # r)) \<and> \<not> prefix (drop (Suc k) (a # r)) q"
      by blast
    then show "\<not> prefix q (drop k r) \<and> \<not> prefix (drop k r) q" by simp
  qed
  with Cons.IH have "str_includes (r @ t) q = str_includes t q" by simp
  with 1 show ?case by simp
qed

lemma prefix_replace_all_back2:
  assumes "\<forall>k<length q. \<not> prefix (drop k q) rep \<and> \<not> prefix rep (drop k q)"
    and "prefix q (replace_all pat rep s)"
  shows "prefix q s"
  using assms
proof (induction q arbitrary: s)
  case Nil
  then show ?case by simp
next
  case (Cons a q)
  from Cons.prems(1) have nc: "\<not> prefix (a # q) rep \<and> \<not> prefix rep (a # q)"
    by (metis drop0 length_greater_0_conv list.distinct(1))
  have rest: "\<forall>k<length q. \<not> prefix (drop k q) rep \<and> \<not> prefix rep (drop k q)"
  proof (intro allI impI)
    fix k assume "k < length q"
    then have "Suc k < length (a # q)" by simp
    with Cons.prems(1) have "\<not> prefix (drop (Suc k) (a # q)) rep \<and> \<not> prefix rep (drop (Suc k) (a # q))"
      by blast
    then show "\<not> prefix (drop k q) rep \<and> \<not> prefix rep (drop k q)" by simp
  qed
  show ?case
  proof (cases s)
    case Nil
    with Cons.prems show ?thesis by simp
  next
    case (Cons d ds)
    show ?thesis
    proof (cases "pat \<noteq> [] \<and> prefix pat (d # ds)")
      case True
      with Cons.prems(2) Cons have "prefix (a # q) (rep @ replace_all pat rep (drop (length pat - 1) ds))"
        by simp
      with nc prefix_append_cases show ?thesis by blast
    next
      case False
      with Cons.prems(2) Cons have "a = d" and "prefix q (replace_all pat rep ds)"
        by auto
      with Cons.IH[OF rest, of ds] Cons show ?thesis by simp
    qed
  qed
qed

lemma str_includes_drop: "str_includes (drop n s) q \<Longrightarrow> str_includes s q"
  unfolding str_includes_sublist by (metis sublist_drop sublist_order.order_trans)

lemma replace_all_clean:
  assumes "apart q rep" and "q = pat \<or> \<not> str_includes s q"
  shows "\<not> str_includes (replace_all pat rep s) q"
  using assms
proof (induction pat rep s rule: replace_all.induct)
  case (1 pat rep)
  then show ?case by (simp add: apart_def)
next
  case (2 pat rep c cs)
  note ap = \<open>apart q rep\<close> and occ = \<open>q = pat \<or> \<not> str_includes (c # cs) q\<close>
  from ap have q: "q \<noteq> []"
    by (simp add: apart_def)
  from ap have "\<forall>k\<in>{0..<length rep}. \<not> prefix q (drop k rep) \<and> \<not> prefix (drop k rep) q"
    by (simp add: apart_def list_all_iff)
  then have a: "\<forall>k<length rep. \<not> prefix q (drop k rep) \<and> \<not> prefix (drop k rep) q"
    by (meson atLeastLessThan_iff le0)
  from ap have "\<forall>k\<in>{1..<length q}. \<not> prefix (drop k q) rep \<and> \<not> prefix rep (drop k q)"
    by (simp add: apart_def list_all_iff)
  then have b: "\<forall>k. 1 \<le> k \<and> k < length q \<longrightarrow> \<not> prefix (drop k q) rep \<and> \<not> prefix rep (drop k q)"
    by (meson atLeastLessThan_iff)
  show ?case
  proof (cases "pat \<noteq> [] \<and> prefix pat (c # cs)")
    case True
    have "q = pat \<or> \<not> str_includes (drop (length pat - 1) cs) q"
    proof (cases "q = pat")
      case False
      with occ have "\<not> str_includes (c # cs) q" by simp
      moreover have "drop (length pat - 1) cs = drop (length pat) (c # cs)"
        using True by (cases pat) auto
      ultimately show ?thesis using str_includes_drop by metis
    qed simp
    with "2.IH"(1) True ap have "\<not> str_includes (replace_all pat rep (drop (length pat - 1) cs)) q"
      by blast
    with True show ?thesis by (simp add: str_includes_behind[OF a])
  next
    case False
    have "q = pat \<or> \<not> str_includes cs q" using occ by auto
    with "2.IH"(2) False ap have ih: "\<not> str_includes (replace_all pat rep cs) q" by blast
    have "\<not> prefix q (c # replace_all pat rep cs)"
    proof
      assume p: "prefix q (c # replace_all pat rep cs)"
      with q obtain q' where q': "q = c # q'" and p': "prefix q' (replace_all pat rep cs)"
        by (cases q) auto
      have "\<forall>k<length q'. \<not> prefix (drop k q') rep \<and> \<not> prefix rep (drop k q')"
      proof (intro allI impI)
        fix k assume "k < length q'"
        then have "1 \<le> Suc k \<and> Suc k < length q" using q' by simp
        with b have "\<not> prefix (drop (Suc k) q) rep \<and> \<not> prefix rep (drop (Suc k) q)" by blast
        then show "\<not> prefix (drop k q') rep \<and> \<not> prefix rep (drop k q')" using q' by simp
      qed
      from prefix_replace_all_back2[OF this p'] have pq: "prefix q (c # cs)"
        using q' by simp
      show False
      proof (cases "q = pat")
        case True
        with pq False q show ?thesis by simp
      next
        case False
        with occ pq show ?thesis by simp
      qed
    qed
    with ih False show ?thesis by auto
  qed
qed

lemma match_blank_line_iff: "match_blank_line s \<noteq> None \<longleftrightarrow> 0x0A \<in> set (takeWhile is_space s)"
  by (simp add: match_blank_line_def Let_def)

lemma line_terminator_space: "is_line_terminator c \<Longrightarrow> is_space c"
  by (auto simp: is_line_terminator_def is_space_def)

lemma remove_blank_lines_indent:
  "0x0A \<notin> set (takeWhile is_space s) \<Longrightarrow>
   0x0A \<notin> set (takeWhile is_space (remove_blank_lines b s))"
proof (induction s arbitrary: b)
  case Nil
  show ?case by simp
next
  case (Cons c cs)
  then have n: "match_blank_line (c # cs) = None"
    using match_blank_line_iff[of "c # cs"] by blast
  show ?case
  proof (cases "is_space c")
    case True
    with Cons.prems have "c \<noteq> 0x0A" and "0x0A \<notin> set (takeWhile is_space cs)" by auto
    with Cons.IH[of "is_line_terminator c"] n True show ?thesis by simp
  next
    case False
    with n show ?thesis by simp
  qed
qed

lemma remove_blank_lines_clean: "\<not> has_blank_line b (remove_blank_lines b s)"
proof (induction b s rule: remove_blank_lines.induct)
  case (1 bol)
  show ?case by simp
next
  case (2 bol c cs)
  show ?case
  proof (cases "if bol then match_blank_line (c # cs) else None")
    case (Some n)
    then have "bol" by (auto split: if_splits)
    with 2(2)[OF Some] Some show ?thesis by simp
  next
    case None
    let ?r = "remove_blank_lines (is_line_terminator c) cs"
    from 2(1)[OF None] have ih: "\<not> has_blank_line (is_line_terminator c) ?r" .
    have "\<not> (bol \<and> match_blank_line (c # ?r) \<noteq> None)"
    proof
      assume a: "bol \<and> match_blank_line (c # ?r) \<noteq> None"
      with None have "match_blank_line (c # cs) = None" by simp
      then have n: "0x0A \<notin> set (takeWhile is_space (c # cs))"
        using match_blank_line_iff[of "c # cs"] by blast
      from a have y: "0x0A \<in> set (takeWhile is_space (c # ?r))"
        using match_blank_line_iff[of "c # ?r"] by blast
      show False
      proof (cases "is_space c")
        case True
        with n have "c \<noteq> 0x0A" and "0x0A \<notin> set (takeWhile is_space cs)" by auto
        with remove_blank_lines_indent[of cs "is_line_terminator c"] y True show False by simp
      next
        case False
        with y show False by simp
      qed
    qed
    with ih None show ?thesis by simp
  qed
qed

lemma prefix_remove_blank_lines_back:
  "\<forall>c\<in>set q. \<not> is_space c \<Longrightarrow> prefix q (remove_blank_lines False s) \<Longrightarrow> prefix q s"
proof (induction q arbitrary: s)
  case Nil
  show ?case by simp
next
  case (Cons a q)
  show ?case
  proof (cases s)
    case Nil
    with Cons.prems show ?thesis by simp
  next
    case (Cons d ds)
    with Cons.prems(2) have ad: "a = d"
      and p: "prefix q (remove_blank_lines (is_line_terminator d) ds)" by auto
    from Cons.prems(1) ad have "\<not> is_line_terminator d"
      using line_terminator_space by auto
    with p Cons.IH[of ds] Cons.prems(1) have "prefix q ds" by simp
    with ad Cons show ?thesis by simp
  qed
qed

lemma remove_blank_lines_includes:
  assumes "q \<noteq> []" and "\<forall>c\<in>set q. \<not> is_space c"
  shows "str_includes (remove_blank_lines b s) q \<Longrightarrow> str_includes s q"
proof (induction b s rule: remove_blank_lines.induct)
  case (1 bol)
  then show ?case by simp
next
  case (2 bol c cs)
  show ?case
  proof (cases "if bol then match_blank_line (c # cs) else None")
    case (Some n)
    with 2(3) have "str_includes (remove_blank_lines True (drop (n - 1) cs)) q" by simp
    with 2(2)[OF Some] have "str_includes (drop (n - 1) cs) q" by simp
    then have "str_includes cs q" by (rule str_includes_drop)
    then show ?thesis by simp
  next
    case None
    let ?r = "remove_blank_lines (is_line_terminator c) cs"
    from None 2(3) have "prefix q (c # ?r) \<or> str_includes ?r q" by simp
    then show ?thesis
    proof
      assume "str_includes ?r q"
      with 2(1)[OF None] show ?thesis by simp
    next
      assume p: "prefix q (c # ?r)"
      with assms(1) obtain q' where q': "q = c # q'" and p': "prefix q' ?r"
        by (cases q) auto
      with assms(2) have "\<not> is_line_terminator c" using line_terminator_space by auto
      with p' have "prefix q' (remove_blank_lines False cs)" by simp
      with prefix_remove_blank_lines_back[of q' cs] assms(2) q' have "prefix q' cs" by simp
      with q' show ?thesis by simp
    qed
  qed
qed

text \<open>A text without line terminators that does not start with white space, put in front.\<close>

lemma has_blank_line_behind:
  assumes "x \<noteq> []" and "\<not> is_space (hd x)" and "\<forall>c\<in>set x. \<not> is_line_terminator c"
  shows "has_blank_line b (x @ t) = has_blank_line False t"
proof -
  have tail: "\<forall>c\<in>set y. \<not> is_line_terminator c \<Longrightarrow> y \<noteq> [] \<Longrightarrow>
      has_blank_line False (y @ t) = has_blank_line False t" for y
  proof (induction y)
    case Nil
    then show ?case by simp
  next
    case (Cons a y)
    then show ?case by (cases "y = []") simp_all
  qed
  from assms obtain a y where x: "x = a # y" by (cases x) auto
  with assms(2) have m: "match_blank_line (a # y @ t) = None"
    by (simp add: match_blank_line_def)
  show ?thesis
  proof (cases "y = []")
    case True
    with x m assms(3) show ?thesis by simp
  next
    case False
    with x m assms(3) tail[of y] show ?thesis by simp
  qed
qed

lemma takeWhile_space_replace_all:
  assumes "pat \<noteq> []" "\<not> is_space (hd pat)" "rep \<noteq> []" "\<not> is_space (hd rep)"
  shows "takeWhile is_space (replace_all pat rep s) = takeWhile is_space s"
proof (induction s)
  case Nil
  show ?case by simp
next
  case (Cons c cs)
  show ?case
  proof (cases "prefix pat (c # cs)")
    case True
    with assms(1) have "c = hd pat" by (cases pat) auto
    with assms True show ?thesis by (cases rep) auto
  next
    case False
    with Cons show ?thesis by simp
  qed
qed

lemma replace_all_blank_lines:
  assumes "pat \<noteq> []" "\<forall>c\<in>set pat. \<not> is_space c"
    and "rep \<noteq> []" "\<not> is_space (hd rep)" "\<forall>c\<in>set rep. \<not> is_line_terminator c"
  shows "\<not> has_blank_line b s \<Longrightarrow> \<not> has_blank_line b (replace_all pat rep s)"
proof (induction s arbitrary: b rule: length_induct)
  case (1 s)
  show ?case
  proof (cases s)
    case Nil
    then show ?thesis by simp
  next
    case (Cons c cs)
    show ?thesis
    proof (cases "prefix pat (c # cs)")
      case True
      then obtain s' where s': "c # cs = pat @ s'" by (auto simp: prefix_def)
      have hp: "\<not> is_space (hd pat)" using assms(1,2) by (cases pat) auto
      have lp: "\<forall>c\<in>set pat. \<not> is_line_terminator c"
        using assms(2) line_terminator_space by blast
      have "has_blank_line b (pat @ s') = has_blank_line False s'"
        by (rule has_blank_line_behind[OF assms(1) hp lp])
      with 1(2) Cons s' have n: "\<not> has_blank_line False s'" by simp
      have "length s' < length s" using s' Cons assms(1)
        by (metis length_append length_greater_0_conv less_add_same_cancel2)
      with 1(1) n have "\<not> has_blank_line False (replace_all pat rep s')" by blast
      moreover have "replace_all pat rep (c # cs) = rep @ replace_all pat rep s'"
        unfolding s' by (rule replace_all_match[OF assms(1)])
      moreover have "has_blank_line b (rep @ replace_all pat rep s')
            = has_blank_line False (replace_all pat rep s')"
        by (rule has_blank_line_behind[OF assms(3,4,5)])
      ultimately show ?thesis using Cons by simp
    next
      case False
      from 1(2) Cons have a: "\<not> (b \<and> match_blank_line (c # cs) \<noteq> None)"
        and r: "\<not> has_blank_line (is_line_terminator c) cs" by auto
      from 1(1) r Cons have ih: "\<not> has_blank_line (is_line_terminator c) (replace_all pat rep cs)"
        by simp
      have hp: "\<not> is_space (hd pat)" using assms(1,2) by (cases pat) auto
      have "takeWhile is_space (replace_all pat rep (c # cs)) = takeWhile is_space (c # cs)"
        by (rule takeWhile_space_replace_all[OF assms(1) hp assms(3,4)])
      with False have "takeWhile is_space (c # replace_all pat rep cs) = takeWhile is_space (c # cs)"
        by simp
      then have "match_blank_line (c # replace_all pat rep cs) \<noteq> None
           \<longleftrightarrow> match_blank_line (c # cs) \<noteq> None"
        by (simp only: match_blank_line_iff)
      with a ih False Cons show ?thesis by auto
    qed
  qed
qed

lemma has_blank_line_append:
  "a \<noteq> [] \<Longrightarrow> \<not> is_space (last a) \<Longrightarrow>
   has_blank_line b (a @ t) = (has_blank_line b a \<or> has_blank_line False t)"
proof (induction a arbitrary: b)
  case Nil
  then show ?case by simp
next
  case (Cons c a)
  show ?case
  proof (cases "a = []")
    case True
    with Cons.prems have "\<not> is_space c" by simp
    then have "\<not> is_line_terminator c" using line_terminator_space by blast
    with True \<open>\<not> is_space c\<close> show ?thesis by (simp add: match_blank_line_def)
  next
    case False
    with Cons.prems have l: "\<not> is_space (last a)" by simp
    have "last a \<in> set a" using False by simp
    with l have "\<exists>x\<in>set (c # a). \<not> is_space x" by auto
    then have "takeWhile is_space ((c # a) @ t) = takeWhile is_space (c # a)"
      by (metis takeWhile_append1 )
    then have "match_blank_line (c # a @ t) \<noteq> None \<longleftrightarrow> match_blank_line (c # a) \<noteq> None"
      using match_blank_line_iff[of "c # a @ t"] match_blank_line_iff[of "c # a"] by simp
    with Cons.IH[OF False l, of "is_line_terminator c"] show ?thesis by auto
  qed
qed

lemma sublist_around:
  assumes "x \<notin> set q"
    and "sublist q (a @ x # b)"
  shows "sublist q a \<or> sublist q b"
proof -
  from assms(2) obtain ps ss where e: "a @ x # b = ps @ q @ ss" by (auto simp: sublist_def)
  show ?thesis
  proof (cases "length ps + length q \<le> length a")
    case True
    from e have "take (length ps + length q) (a @ x # b) = ps @ q" by simp
    with True have "take (length ps + length q) a = ps @ q" by simp
    then have "sublist q (take (length ps + length q) a)" by (metis sublist_appendI append_Nil2)
    then show ?thesis by (metis sublist_take sublist_order.order_trans)
  next
    case False
    show ?thesis
    proof (cases "length a < length ps")
      case True
      from e have "drop (length ps) (a @ x # b) = q @ ss" by simp
      moreover from True have "drop (length ps) (a @ x # b) = drop (length ps - length a - 1) b"
        by (simp add: drop_Cons')
      ultimately have "sublist q (drop (length ps - length a - 1) b)"
        by (metis sublist_appendI append_Nil)
      then show ?thesis by (metis sublist_drop sublist_order.order_trans)
    next
      case F2: False
      with False have i: "length ps \<le> length a" "length a < length ps + length q" by auto
      from e have "(a @ x # b) ! length a = (ps @ q @ ss) ! length a" by simp
      from i have d: "length a - length ps < length q" by arith
      have "(a @ x # b) ! length a = x" by simp
      moreover have "(ps @ q @ ss) ! length a = q ! (length a - length ps)"
        using i d by (simp add: nth_append)
      ultimately have "x = q ! (length a - length ps)"
        using e by simp
      with d have "x \<in> set q" by simp
      with assms(1) show ?thesis by simp
    qed
  qed
qed

lemma spaces_then_suffix: "spaces_then a = Some b \<Longrightarrow> suffix b a"
  by (auto simp: spaces_then_def suffix_dropWhile suffix_ConsI split: list.splits if_splits)

lemma suffix_drop_trans: "suffix b (drop k a) \<Longrightarrow> suffix b a"
  using suffix_drop suffix_order.order_trans by blast

lemma suffix_dropWhile_trans: "suffix b (dropWhile P a) \<Longrightarrow> suffix b a"
  using suffix_dropWhile suffix_order.order_trans by blast

text \<open>A match of the import of \<open>node:path\<close> ends with a quote or with a semicolon.\<close>

lemma match_node_path_import_end:
  assumes "match_node_path_import s = Some n"
  shows "\<exists>m rest. s = m @ rest \<and> n = length m \<and> m \<noteq> [] \<and> \<not> is_space (last m)"
proof -
  note d = match_node_path_import_def
  from assms have p: "prefix (js ''import'') s"
    by (auto simp: d split: if_splits)
  with assms obtain r where r: "spaces_then (drop (length (js ''import'')) s) = Some r"
    by (auto simp: d split: option.splits)
  with assms p obtain r1 where r1: "r = 0x7B # r1" and x: "dropWhile (\<lambda>c. c \<noteq> 0x7D) r1 \<noteq> []"
    by (auto simp: d split: list.splits if_splits)
  with assms p r obtain r2
    where r2: "spaces_then (drop 1 (dropWhile (\<lambda>c. c \<noteq> 0x7D) r1)) = Some r2"
    by (auto simp: d split: option.splits)
  with assms p r r1 x have f: "prefix (js ''from'') r2"
    by (auto simp: d split: if_splits)
  with assms p r r1 x r2 obtain r3 where r3: "spaces_then (drop (length (js ''from'')) r2) = Some r3"
    by (auto simp: d split: option.splits)
  with assms p r r1 x r2 f obtain q r4 where r4: "r3 = q # r4"
    and np: "prefix (js ''node:path'') r4"
    by (auto simp: d split: list.splits if_splits)
  with assms p r r1 x r2 f r3 obtain q' r5 where r5: "drop (length (js ''node:path'')) r4 = q' # r5"
    and q': "q' = squote \<or> q' = dquote"
    by (auto simp: d split: list.splits if_splits)
  with assms p r r1 x r2 f r3 r4 np
  have n: "n = length s - length (case r5 of [] \<Rightarrow> [] | d # r6 \<Rightarrow> if d = 0x3B then r6 else d # r6)"
    by (auto simp: d split: if_splits)
  have "suffix (q' # r5) r4" using r5 by (metis suffix_drop)
  then have "suffix (q' # r5) r3" using r4 by (simp add: suffix_ConsI)
  then have "suffix (q' # r5) r2"
    using spaces_then_suffix[OF r3] suffix_drop_trans suffix_order.order_trans by blast
  then have "suffix (q' # r5) (dropWhile (\<lambda>c. c \<noteq> 0x7D) r1)"
    using spaces_then_suffix[OF r2] suffix_drop_trans suffix_order.order_trans by blast
  then have "suffix (q' # r5) r1" by (rule suffix_dropWhile_trans)
  then have "suffix (q' # r5) r" using r1 by (simp add: suffix_ConsI)
  then have "suffix (q' # r5) s"
    using spaces_then_suffix[OF r] suffix_drop_trans suffix_order.order_trans by blast
  then obtain x0 where s: "s = x0 @ q' # r5" by (auto simp: suffix_def)
  have nq: "\<not> is_space q'" using q' by (auto simp: squote_def dquote_def is_space_def)
  have ns: "\<not> is_space 0x3B" by (simp add: is_space_def)
  show ?thesis
  proof (cases "\<exists>r6. r5 = 0x3B # r6")
    case True
    then obtain r6 where r6: "r5 = 0x3B # r6" by blast
    with n s have "n = length (x0 @ [q', 0x3B])" by simp
    moreover have "s = (x0 @ [q', 0x3B]) @ r6" using s r6 by simp
    ultimately show ?thesis using ns by (metis last_snoc append_assoc append_Cons append_Nil snoc_eq_iff_butlast)
  next
    case False
    then have "(case r5 of [] \<Rightarrow> [] | d # r6 \<Rightarrow> if d = 0x3B then r6 else d # r6) = r5"
      by (cases r5) auto
    with n s have "n = length (x0 @ [q'])" by simp
    moreover have "s = (x0 @ [q']) @ r5" using s by simp
    ultimately show ?thesis using nq by (metis last_snoc snoc_eq_iff_butlast)
  qed
qed

lemma insert_behind_first_cases:
  "insert_behind_first m new s = s \<or>
   (\<exists>a b n. s = a @ b \<and> m b = Some n \<and> insert_behind_first m new s = a @ take n b @ new @ drop n b)"
proof (induction s)
  case Nil
  show ?case by simp
next
  case (Cons c cs)
  show ?case
  proof (cases "m (c # cs)")
    case (Some n)
    then have "c # cs = [] @ (c # cs) \<and> m (c # cs) = Some n
        \<and> insert_behind_first m new (c # cs) = [] @ take n (c # cs) @ new @ drop n (c # cs)"
      by simp
    then show ?thesis by blast
  next
    case None
    from Cons show ?thesis
    proof
      assume "insert_behind_first m new cs = cs"
      with None show ?thesis by simp
    next
      assume "\<exists>a b n. cs = a @ b \<and> m b = Some n
          \<and> insert_behind_first m new cs = a @ take n b @ new @ drop n b"
      then obtain a b n where "cs = a @ b" "m b = Some n"
        "insert_behind_first m new cs = a @ take n b @ new @ drop n b" by blast
      with None have "c # cs = (c # a) @ b \<and> m b = Some n
        \<and> insert_behind_first m new (c # cs) = (c # a) @ take n b @ new @ drop n b"
        by simp
      then show ?thesis by blast
    qed
  qed
qed

lemma insert_node_url_import:
  "insert_behind_first match_node_path_import new s = s \<or>
   (\<exists>a b. s = a @ b \<and> a \<noteq> [] \<and> \<not> is_space (last a)
      \<and> insert_behind_first match_node_path_import new s = a @ new @ b)"
proof -
  from insert_behind_first_cases[of match_node_path_import new s] show ?thesis
  proof
    assume "\<exists>a b n. s = a @ b \<and> match_node_path_import b = Some n
       \<and> insert_behind_first match_node_path_import new s = a @ take n b @ new @ drop n b"
    then obtain a b n where s: "s = a @ b" and m: "match_node_path_import b = Some n"
      and i: "insert_behind_first match_node_path_import new s = a @ take n b @ new @ drop n b"
      by blast
    from match_node_path_import_end[OF m] obtain mm rest where
      b: "b = mm @ rest" and n: "n = length mm" and mm: "mm \<noteq> []" "\<not> is_space (last mm)"
      by blast
    have "s = (a @ mm) @ rest" using s b by simp
    moreover have "a @ mm \<noteq> []" using mm by simp
    moreover have "\<not> is_space (last (a @ mm))" using mm by simp
    moreover have "insert_behind_first match_node_path_import new s = (a @ mm) @ new @ rest"
      using i b n by simp
    ultimately show ?thesis by blast
  qed simp
qed

lemma entry_paths_apart:
  "apart (js ''resources/js/app.tsx'') (js ''resources/js/app.jsx'')"
  "apart (js ''resources/js/app.tsx'') (js ''resources/js/ssr.jsx'')"
  "apart (js ''resources/js/ssr.tsx'') (js ''resources/js/ssr.jsx'')"
  by code_simp+

lemma dirname_apart:
  \<open>apart (js ''resources/js/app.tsx'') (js ''fileURLToPath(new URL('.', import.meta.url))'')\<close>
  \<open>apart (js ''resources/js/ssr.tsx'') (js ''fileURLToPath(new URL('.', import.meta.url))'')\<close>
  \<open>apart (js ''__dirname'') (js ''fileURLToPath(new URL('.', import.meta.url))'')\<close>
  by code_simp+

lemma literals_without_space:
  "\<forall>c\<in>set (js ''resources/js/app.tsx''). \<not> is_space c"
  "\<forall>c\<in>set (js ''resources/js/ssr.tsx''). \<not> is_space c"
  "\<forall>c\<in>set (js ''__dirname''). \<not> is_space c"
  "js ''resources/js/app.tsx'' \<noteq> []"
  "js ''resources/js/ssr.tsx'' \<noteq> []"
  "js ''__dirname'' \<noteq> []"
  by code_simp+

lemma dirname_replacement:
  \<open>js ''fileURLToPath(new URL('.', import.meta.url))'' \<noteq> []\<close>
  \<open>\<not> is_space (hd (js ''fileURLToPath(new URL('.', import.meta.url))''))\<close>
  \<open>\<forall>c\<in>set (js ''fileURLToPath(new URL('.', import.meta.url))''). \<not> is_line_terminator c\<close>
  by code_simp+

lemma node_url_import:
  \<open>js ''\<newline>import { fileURLToPath, URL } from 'node:url';''
     = 0x0A # js ''import { fileURLToPath, URL } from 'node:url'' @ [0x27, 0x3B]\<close>
  \<open>\<not> has_blank_line False (js ''\<newline>import { fileURLToPath, URL } from 'node:url';'')\<close>
  \<open>\<not> is_space (last (js ''\<newline>import { fileURLToPath, URL } from 'node:url';''))\<close>
  \<open>\<not> str_includes (js ''import { fileURLToPath, URL } from 'node:url'' @ [0x27])
       (js ''resources/js/app.tsx'')\<close>
  \<open>\<not> str_includes (js ''import { fileURLToPath, URL } from 'node:url'' @ [0x27])
       (js ''resources/js/ssr.tsx'')\<close>
  \<open>0x0A \<notin> set (js ''resources/js/app.tsx'')\<close> \<open>0x3B \<notin> set (js ''resources/js/app.tsx'')\<close>
  \<open>0x0A \<notin> set (js ''resources/js/ssr.tsx'')\<close> \<open>0x3B \<notin> set (js ''resources/js/ssr.tsx'')\<close>
  by code_simp+

text \<open>The import of \<open>node:url\<close>, put behind a text that does not end with white space.\<close>

lemma insert_import_includes:
  assumes q: "0x0A \<notin> set q" "0x3B \<notin> set q"
    and t: "\<not> str_includes (js ''import { fileURLToPath, URL } from 'node:url'' @ [0x27]) q"
    and s: "\<not> str_includes (a @ b) q"
  shows \<open>\<not> str_includes (a @ js ''\<newline>import { fileURLToPath, URL } from 'node:url';'' @ b) q\<close>
proof
  let ?t = \<open>js ''import { fileURLToPath, URL } from 'node:url'' @ [0x27]\<close>
  assume \<open>str_includes (a @ js ''\<newline>import { fileURLToPath, URL } from 'node:url';'' @ b) q\<close>
  then have "sublist q (a @ 0x0A # (?t @ 0x3B # b))"
    by (simp add: str_includes_sublist node_url_import(1))
  from sublist_around[OF q(1) this] have "sublist q a \<or> sublist q (?t @ 0x3B # b)" .
  then have "sublist q a \<or> sublist q ?t \<or> sublist q b"
    using sublist_around[OF q(2)] by blast
  moreover have "\<not> sublist q a"
  proof
    assume "sublist q a"
    then obtain ps ss where "a = ps @ q @ ss" by (auto simp: sublist_def)
    then have "a @ b = ps @ q @ (ss @ b)" by simp
    then have "sublist q (a @ b)" unfolding sublist_def by blast
    with s show False by (simp add: str_includes_sublist)
  qed
  moreover have "\<not> sublist q b"
  proof
    assume "sublist q b"
    then obtain ps ss where "b = ps @ q @ ss" by (auto simp: sublist_def)
    then have "a @ b = (a @ ps) @ q @ ss" by simp
    then have "sublist q (a @ b)" unfolding sublist_def by blast
    with s show False by (simp add: str_includes_sublist)
  qed
  moreover have "\<not> sublist q ?t" using t by (simp add: str_includes_sublist)
  ultimately show False by blast
qed

lemma insert_import_blank_lines:
  assumes "a \<noteq> []" "\<not> is_space (last a)" "\<not> has_blank_line True (a @ b)"
  shows \<open>\<not> has_blank_line True (a @ js ''\<newline>import { fileURLToPath, URL } from 'node:url';'' @ b)\<close>
proof -
  let ?t = \<open>js ''\<newline>import { fileURLToPath, URL } from 'node:url';''\<close>
  have tn: "?t \<noteq> []" by (simp add: node_url_import(1))
  from assms have ab: "\<not> has_blank_line True a" "\<not> has_blank_line False b"
    by (simp_all add: has_blank_line_append)
  have "has_blank_line True (a @ ?t) = (has_blank_line True a \<or> has_blank_line False ?t)"
    by (rule has_blank_line_append[OF assms(1,2)])
  with ab node_url_import(2) have 1: "\<not> has_blank_line True (a @ ?t)" by simp
  have l: "\<not> is_space (last (a @ ?t))" using tn node_url_import(3) by simp
  have "has_blank_line True ((a @ ?t) @ b) = (has_blank_line True (a @ ?t) \<or> has_blank_line False b)"
    by (rule has_blank_line_append[OF _ l]) (use tn in simp)
  with 1 ab show ?thesis by simp
qed

text \<open>
  What every converted bundler configuration is free of: the two old entry paths, blank
  lines and \<open>__dirname\<close>.
\<close>

lemma convert_vite_config_clean:
  \<open>\<not> str_includes (convert_vite_config c) (js ''resources/js/app.tsx'')
   \<and> \<not> str_includes (convert_vite_config c) (js ''resources/js/ssr.tsx'')
   \<and> \<not> has_blank_line True (convert_vite_config c)
   \<and> \<not> str_includes (convert_vite_config c) (js ''__dirname'')\<close>
proof -
  let ?P1 = "js ''resources/js/app.tsx''" and ?P2 = "js ''resources/js/ssr.tsx''"
  let ?P3 = "js ''__dirname''"
  let ?R3 = \<open>js ''fileURLToPath(new URL('.', import.meta.url))''\<close>
  let ?T = \<open>js ''\<newline>import { fileURLToPath, URL } from 'node:url';''\<close>
  define c2 where "c2 = replace_regex match_import_braces_type [] (replace_regex match_import_type [] c)"
  define c3 where "c3 = replace_all ?P1 (js ''resources/js/app.jsx'') c2"
  define c4 where "c4 = replace_all ?P2 (js ''resources/js/ssr.jsx'') c3"
  define c5 where "c5 = remove_blank_lines True c4"
  define c6 where "c6 = (if \<not> str_includes c5 (js ''fileURLToPath'')
                      then insert_behind_first match_node_path_import ?T c5 else c5)"
  have conv: "convert_vite_config c
      = (if str_includes c5 ?P3 then replace_all ?P3 ?R3 c6 else c5)"
    by (simp add: convert_vite_config_def c2_def c3_def c4_def c5_def c6_def)
  have c3: "\<not> str_includes c3 ?P1"
    unfolding c3_def by (rule replace_all_clean[OF entry_paths_apart(1)]) simp
  have c4: "\<not> str_includes c4 ?P1" "\<not> str_includes c4 ?P2"
    unfolding c4_def
    using replace_all_clean[OF entry_paths_apart(2), of ?P2 c3] c3
      replace_all_clean[OF entry_paths_apart(3), of ?P2 c3] by simp_all
  have c5: "\<not> str_includes c5 ?P1" "\<not> str_includes c5 ?P2" "\<not> has_blank_line True c5"
    unfolding c5_def
    using remove_blank_lines_includes[OF literals_without_space(4) literals_without_space(1), of True c4]
      remove_blank_lines_includes[OF literals_without_space(5) literals_without_space(2), of True c4]
      c4 remove_blank_lines_clean[of True c4] by blast+
  have c6: "\<not> str_includes c6 ?P1 \<and> \<not> str_includes c6 ?P2 \<and> \<not> has_blank_line True c6"
  proof (cases "c6 = c5")
    case True
    with c5 show ?thesis by simp
  next
    case False
    then have "c6 = insert_behind_first match_node_path_import ?T c5"
      by (simp add: c6_def split: if_splits)
    with False insert_node_url_import[of ?T c5] obtain a b where
      ab: "c5 = a @ b" "a \<noteq> []" "\<not> is_space (last a)" and i: "c6 = a @ ?T @ b"
      by auto
    have "\<not> str_includes (a @ ?T @ b) ?P1"
      by (rule insert_import_includes[OF node_url_import(6,7,4)]) (use c5 ab in simp)
    moreover have "\<not> str_includes (a @ ?T @ b) ?P2"
      by (rule insert_import_includes[OF node_url_import(8,9,5)]) (use c5 ab in simp)
    moreover have "\<not> has_blank_line True (a @ ?T @ b)"
      by (rule insert_import_blank_lines[OF ab(2,3)]) (use c5 ab in simp)
    ultimately show ?thesis using i by simp
  qed
  show ?thesis
  proof (cases "str_includes c5 ?P3")
    case False
    with conv c5 show ?thesis by simp
  next
    case True
    have 1: "\<not> str_includes (replace_all ?P3 ?R3 c6) ?P1"
      by (rule replace_all_clean[OF dirname_apart(1)]) (use c6 in simp)
    have 2: "\<not> str_includes (replace_all ?P3 ?R3 c6) ?P2"
      by (rule replace_all_clean[OF dirname_apart(2)]) (use c6 in simp)
    have 3: "\<not> has_blank_line True (replace_all ?P3 ?R3 c6)"
      by (rule replace_all_blank_lines[OF literals_without_space(6) literals_without_space(3)
            dirname_replacement]) (use c6 in simp)
    have 4: "\<not> str_includes (replace_all ?P3 ?R3 c6) ?P3"
      by (rule replace_all_clean[OF dirname_apart(3)]) simp
    from True conv 1 2 3 4 show ?thesis by simp
  qed
qed

lemma convert_vite_config_again:
  assumes "\<not> matches_somewhere match_import_type (convert_vite_config c)"
    and "\<not> matches_somewhere match_import_braces_type (convert_vite_config c)"
  shows "convert_vite_config (convert_vite_config c) = convert_vite_config c"
  by (rule convert_vite_config_settled)
     (use assms convert_vite_config_clean[of c] in \<open>simp add: settled_vite_config_def\<close>)

lemma replace_first_settled: "\<not> str_includes s pat \<Longrightarrow> replace_first pat rep s = s"
  by (induction s) auto

lemma set_prop_same: "get_prop p k = Some v \<Longrightarrow> set_prop p k v = p"
  by (cases p) (simp_all add: update_triv)

lemma update_name_again:
  assumes "update_name p = Some p1" and "get_prop q (js ''name'') = get_prop p1 (js ''name'')"
    and "case get_prop q (js ''name'') of
           Some (JStr s) \<Rightarrow> \<not> str_includes s (js ''react-starter-kit'') | _ \<Rightarrow> True"
  shows "update_name q = Some q"
proof (cases "get_prop p (js ''name'')")
  case None
  with assms show ?thesis by (simp add: update_name_def)
next
  case (Some v)
  then obtain es where p: "p = JObj es" by (cases p) auto
  show ?thesis
  proof (cases v)
    case (JStr s)
    with assms(1) Some p obtain s' where "get_prop p1 (js ''name'') = Some (JStr s')"
      by (auto simp: update_name_def update_conv' split: if_splits)
    with assms(2,3) show ?thesis by (simp add: update_name_def)
  next
    case (JArr xs)
    with assms(1) Some have "p1 = p" "JStr (js ''react-starter-kit'') \<notin> set xs"
      by (auto simp: update_name_def split: if_splits)
    with assms(2) Some JArr show ?thesis by (simp add: update_name_def)
  next
    case JNull
    with assms(1) Some have "p1 = p" by (simp add: update_name_def)
    with assms(2) Some JNull show ?thesis by (simp add: update_name_def)
  next
    case (JBool b)
    with assms(1) Some have "p1 = p" "\<not> b" by (auto simp: update_name_def split: if_splits)
    with assms(2) Some JBool show ?thesis by (simp add: update_name_def)
  next
    case (JNum n)
    with assms(1) Some have "p1 = p" "n = 0" by (auto simp: update_name_def split: if_splits)
    with assms(2) Some JNum show ?thesis by (simp add: update_name_def)
  next
    case (JObj fs)
    with assms(1) Some show ?thesis by (simp add: update_name_def)
  qed
qed

lemma update_description_again:
  assumes "update_description p = Some p2"
    and "get_prop q (js ''description'') = get_prop p2 (js ''description'')"
    and "case get_prop q (js ''description'') of
           Some (JStr s) \<Rightarrow> \<not> str_includes s (js ''TypeScript'') | _ \<Rightarrow> True"
  shows "update_description q = Some q"
proof (cases "get_prop p (js ''description'')")
  case None
  with assms show ?thesis by (simp add: update_description_def)
next
  case (Some v)
  then obtain es where p: "p = JObj es" by (cases p) auto
  show ?thesis
  proof (cases "truthy v")
    case False
    with assms(1) Some have "p2 = p" by (simp add: update_description_def)
    with assms(2) Some False show ?thesis by (simp add: update_description_def)
  next
    case True
    with assms(1) Some obtain s where "v = JStr s" by (cases v) (auto simp: update_description_def)
    with assms(1) Some p True obtain s' where "get_prop p2 (js ''description'') = Some (JStr s')"
      by (auto simp: update_description_def update_conv')
    with assms(2) have q: "get_prop q (js ''description'') = Some (JStr s')" by simp
    with assms(3) have "replace_first (js ''TypeScript'') (js ''JavaScript/JSX'') s' = s'"
      by (simp add: replace_first_settled)
    with q show ?thesis by (simp add: update_description_def set_prop_same)
  qed
qed

lemma foldl_delete_prop_object:
  "foldl delete_prop (JObj es) ks = JObj (filter (\<lambda>e. fst e \<notin> set ks) es)"
proof (induction ks arbitrary: es)
  case Nil
  show ?case by simp
next
  case (Cons k ks)
  have "AList.delete k es = filter (\<lambda>e. fst e \<noteq> k) es"
    by (induction es) auto
  with Cons show ?case by (auto intro: filter_cong)
qed

lemma foldl_delete_prop_other: "\<forall>es. d \<noteq> JObj es \<Longrightarrow> foldl delete_prop d ks = d"
  by (induction ks) (cases d; simp)+

lemma foldl_delete_prop_twice:
  "foldl delete_prop (foldl delete_prop d ks) ks = foldl delete_prop d ks"
proof (cases "\<exists>es. d = JObj es")
  case True
  then show ?thesis by (auto simp: foldl_delete_prop_object)
next
  case False
  then show ?thesis by (simp add: foldl_delete_prop_other)
qed

lemma truthy_foldl_delete: "truthy (foldl delete_prop d ks) = truthy d"
proof (cases "\<exists>es. d = JObj es")
  case True
  then show ?thesis by (auto simp: foldl_delete_prop_object)
next
  case False
  then show ?thesis by (simp add: foldl_delete_prop_other)
qed

lemma remove_dependencies_twice:
  "remove_dependencies (remove_dependencies p) = remove_dependencies p"
proof (cases "get_prop p (js ''devDependencies'')")
  case None
  then show ?thesis by (simp add: remove_dependencies_def)
next
  case (Some d)
  then obtain es where p: "p = JObj es" by (cases p) auto
  show ?thesis
  proof (cases "truthy d")
    case False
    with Some show ?thesis by (simp add: remove_dependencies_def)
  next
    case True
    let ?d' = "foldl delete_prop d typescript_dependencies"
    let ?p' = "set_prop p (js ''devDependencies'') ?d'"
    have r: "remove_dependencies p = ?p'" using Some True by (simp add: remove_dependencies_def)
    have g: "get_prop ?p' (js ''devDependencies'') = Some ?d'" using p by (simp add: update_conv')
    have "remove_dependencies ?p' = set_prop ?p' (js ''devDependencies'') ?d'"
      using g True by (simp add: remove_dependencies_def truthy_foldl_delete foldl_delete_prop_twice)
    also have "\<dots> = ?p'" using g by (rule set_prop_same)
    finally show ?thesis by (simp add: r)
  qed
qed

lemma updatePackageJson_again:
  assumes "updatePackageJson p = Some p'" and "settled_package p'"
  shows "updatePackageJson p' = Some p'"
proof -
  from assms(1) obtain p1 p2 where p1: "update_name p = Some p1"
    and p2: "update_description p1 = Some p2" and p': "p' = remove_dependencies p2"
    and nn: "p \<noteq> JNull"
    by (auto simp: updatePackageJson_def split: option.splits json.splits)
  have n: "get_prop p' (js ''name'') = get_prop p1 (js ''name'')"
    unfolding p' using remove_dependencies_other[OF key_literals(5)]
      update_description_other[OF p2 key_literals(4)] by simp
  have d: "get_prop p' (js ''description'') = get_prop p2 (js ''description'')"
    unfolding p' by (rule remove_dependencies_other) (simp add: js_def)
  have 1: "update_name p' = Some p'"
    using update_name_again[OF p1 n] assms(2) by (simp add: settled_package_def)
  have 2: "update_description p' = Some p'"
    using update_description_again[OF p2 d] assms(2) by (simp add: settled_package_def)
  have 3: "remove_dependencies p' = p'"
    unfolding p' by (rule remove_dependencies_twice)
  have "p' \<noteq> JNull"
  proof
    assume "p' = JNull"
    then have "get_prop p' (js ''devDependencies'') = None" by simp
    have "p2 = JNull"
      using \<open>p' = JNull\<close> unfolding p' remove_dependencies_def
      by (cases p2) (auto split: option.splits if_splits)
    then have "p1 = JNull" using p2
      by (cases p1) (auto simp: update_description_def split: option.splits if_splits json.splits)
    then have "p = JNull" using p1
      by (cases p) (auto simp: update_name_def split: option.splits if_splits json.splits)
    with nn show False by simp
  qed
  with 1 2 3 show ?thesis by (cases p') (simp_all add: updatePackageJson_def)
qed

text \<open>
  C8, as amended. The rewrite of the lint configuration is idempotent on every content.
  The conversion of the bundler configuration leaves its own output as it is whenever
  that output holds no type import, of either of the two kinds that the conversion
  removes; the retargeted paths, the blank lines and \<open>__dirname\<close> never ask for a second
  pass. The rewrite of the package metadata leaves its own output as it is whenever
  the new name does not contain \<open>react-starter-kit\<close> and the new description does not
  contain \<open>TypeScript\<close>.
\<close>

theorem config_rewrites_fixed_points:
  "rewrite_ignores (rewrite_ignores content) = rewrite_ignores content
   \<and> (\<not> matches_somewhere match_import_type (convert_vite_config config)
        \<and> \<not> matches_somewhere match_import_braces_type (convert_vite_config config) \<longrightarrow>
        convert_vite_config (convert_vite_config config) = convert_vite_config config)
   \<and> (\<forall>p'. updatePackageJson packageJson = Some p' \<and> settled_package p' \<longrightarrow>
        updatePackageJson p' = Some p')"
  using rewrite_ignores_idem convert_vite_config_again updatePackageJson_again
  by blast

theorem config_rewrites_fixed_points_witness:
  \<open>\<not> matches_somewhere match_import_type (convert_vite_config example_vite_config)
   \<and> \<not> matches_somewhere match_import_braces_type (convert_vite_config example_vite_config)
   \<and> convert_vite_config example_vite_config \<noteq> example_vite_config
   \<and> convert_vite_config (convert_vite_config example_vite_config)
       = convert_vite_config example_vite_config
   \<and> (\<exists>p'. updatePackageJson example_package = Some p' \<and> settled_package p'
         \<and> updatePackageJson p' = Some p')
   \<and> rewrite_ignores (rewrite_ignores (js ''ignores: ['output', 'vendor']''))
       = rewrite_ignores (js ''ignores: ['output', 'vendor']'')\<close>
proof -
  have v: "\<not> matches_somewhere match_import_type (convert_vite_config example_vite_config)"
    "\<not> matches_somewhere match_import_braces_type (convert_vite_config example_vite_config)"
    by code_simp+
  have c: "convert_vite_config example_vite_config \<noteq> example_vite_config"
    by code_simp
  have p: "updatePackageJson example_package = Some (JObj
     [(js ''name'', JStr (js ''vendor/react-jsx-starter-kit'')),
      (js ''description'', JStr (js ''A JavaScript/JSX kit'')),
      (js ''devDependencies'', JObj [(js ''vite'', JStr (js ''7''))])])"
    by code_simp
  have s: "settled_package (JObj
     [(js ''name'', JStr (js ''vendor/react-jsx-starter-kit'')),
      (js ''description'', JStr (js ''A JavaScript/JSX kit'')),
      (js ''devDependencies'', JObj [(js ''vite'', JStr (js ''7''))])])"
    by code_simp
  from config_rewrites_fixed_points[of _ example_vite_config example_package] v c p s
  show ?thesis by blast
qed

text \<open>
  The claim as it stands fails for the bundler configuration and for the package
  metadata: removing a type import can bring the two halves of another one together, and
  \<open>replace\<close> with a string pattern replaces the first occurrence only.
\<close>

theorem config_rewrites_idempotent_counterexample:
  \<open>convert_vite_config (js ''impimport type A;ort type B;'') = js ''import type B;''
   \<and> convert_vite_config (js ''import type B;'') = []
   \<and> convert_vite_config (convert_vite_config (js ''impimport type A;ort type B;''))
       \<noteq> convert_vite_config (js ''impimport type A;ort type B;'')
   \<and> convert_vite_config (js ''impimport {type A} from 'a'ort {type B} from 'b'' @ [0x27])
       = js ''import {type B} from 'b'' @ [0x27]
   \<and> convert_vite_config (js ''import {type B} from 'b'' @ [0x27]) = []
   \<and> updatePackageJson (JObj [(js ''description'', JStr (js ''TypeScript, TypeScript''))])
       = Some (JObj [(js ''description'', JStr (js ''JavaScript/JSX, TypeScript''))])
   \<and> updatePackageJson (JObj [(js ''description'', JStr (js ''JavaScript/JSX, TypeScript''))])
       = Some (JObj [(js ''description'', JStr (js ''JavaScript/JSX, JavaScript/JSX''))])
   \<and> JObj [(js ''description'', JStr (js ''JavaScript/JSX, JavaScript/JSX''))]
       \<noteq> JObj [(js ''description'', JStr (js ''JavaScript/JSX, TypeScript''))]
   \<and> updatePackageJson (JObj [(js ''name'', JStr (js ''react-starter-kit/react-starter-kit''))])
       = Some (JObj [(js ''name'', JStr (js ''react-jsx-starter-kit/react-starter-kit''))])
   \<and> updatePackageJson (JObj [(js ''name'', JStr (js ''react-jsx-starter-kit/react-starter-kit''))])
       = Some (JObj [(js ''name'', JStr (js ''react-jsx-starter-kit/react-jsx-starter-kit''))])\<close>
proof -
  have 1: "convert_vite_config (js ''impimport type A;ort type B;'') = js ''import type B;''"
    by code_simp
  have 2: "convert_vite_config (js ''import type B;'') = []"
    by code_simp
  have 3: "js ''import type B;'' \<noteq> []"
    by (simp add: js_def)
  have 4: "updatePackageJson (JObj [(js ''description'', JStr (js ''TypeScript, TypeScript''))])
       = Some (JObj [(js ''description'', JStr (js ''JavaScript/JSX, TypeScript''))])"
    by code_simp
  have 5: "updatePackageJson (JObj [(js ''description'', JStr (js ''JavaScript/JSX, TypeScript''))])
       = Some (JObj [(js ''description'', JStr (js ''JavaScript/JSX, JavaScript/JSX''))])"
    by code_simp
  have 6: "JObj [(js ''description'', JStr (js ''JavaScript/JSX, JavaScript/JSX''))]
       \<noteq> JObj [(js ''description'', JStr (js ''JavaScript/JSX, TypeScript''))]"
    by (simp add: js_def)
  have 7: \<open>convert_vite_config (js ''impimport {type A} from 'a'ort {type B} from 'b'' @ [0x27])
       = js ''import {type B} from 'b'' @ [0x27]\<close>
    by code_simp
  have 8: \<open>convert_vite_config (js ''import {type B} from 'b'' @ [0x27]) = []\<close>
    by code_simp
  have 9: "updatePackageJson (JObj [(js ''name'', JStr (js ''react-starter-kit/react-starter-kit''))])
       = Some (JObj [(js ''name'', JStr (js ''react-jsx-starter-kit/react-starter-kit''))])"
    by code_simp
  have 10: "updatePackageJson (JObj [(js ''name'', JStr (js ''react-jsx-starter-kit/react-starter-kit''))])
       = Some (JObj [(js ''name'', JStr (js ''react-jsx-starter-kit/react-jsx-starter-kit''))])"
    by code_simp
  from 1 2 3 4 5 6 7 8 9 10 show ?thesis by simp
qed

section \<open>The compiler invoker\<close>

lemma outputExists_missing: "outputExists t = Some False \<longleftrightarrow> output_missing t"
  by (auto simp: outputExists_def output_missing_def existsSync_def readdirSync_def
      split: option.splits node.splits)

lemma outputExists_present: "outputExists t = Some True \<longleftrightarrow> output_present t"
  by (auto simp: outputExists_def output_present_def existsSync_def readdirSync_def
      split: option.splits node.splits list.splits)

text \<open>
  C2. \<open>first\<close> is the first invocation of the compiler and \<open>retry\<close> the one with the
  relaxed settings, run on the tree that the first one left. The invoker returns failure
  if and only if both exit with a status other than zero and each leaves the output
  directory absent or empty. It returns success when the first invocation exits with
  zero or leaves a non-empty output directory, and when, after a first failure without
  output, the retry does. The compiler is invoked once or twice, the second time only
  after a first failure without output, and twice before a failure is returned.
\<close>

theorem compiler_invoker_outcome:
  fixes e :: env and t :: node
  defines "first \<equiv> execSync e (tsc_command e) t"
  defines "retry \<equiv> execSync e (tsc_retry_command e) (snd first)"
  defines "result \<equiv> convertTypeScriptFiles e t"
  shows "(fst result = Some False \<longleftrightarrow>
            fst first = None \<and> output_missing (snd first) \<and>
            fst retry = None \<and> output_missing (snd retry))
       \<and> (fst first \<noteq> None \<or> output_present (snd first) \<longrightarrow> fst result = Some True)
       \<and> (fst first = None \<and> output_missing (snd first) \<and>
            (fst retry \<noteq> None \<or> output_present (snd retry)) \<longrightarrow> fst result = Some True)
       \<and> (fst result = Some False \<longrightarrow> snd (snd result) = [tsc_command e, tsc_retry_command e])
       \<and> length (snd (snd result)) \<le> 2
       \<and> (snd (snd result) = [tsc_command e]
            \<or> snd (snd result) = [tsc_command e, tsc_retry_command e]
               \<and> fst first = None \<and> output_missing (snd first))"
proof -
  obtain r1 t1 where f: "execSync e (tsc_command e) t = (r1, t1)" by (cases "execSync e (tsc_command e) t")
  obtain r2 t2 where r: "execSync e (tsc_retry_command e) t1 = (r2, t2)"
    by (cases "execSync e (tsc_retry_command e) t1")
  show ?thesis
    unfolding first_def retry_def result_def convertTypeScriptFiles_def f r
    using outputExists_missing[of t1] outputExists_present[of t1]
      outputExists_missing[of t2] outputExists_present[of t2]
    by (cases r1; cases r2; cases "outputExists t1"; cases "outputExists t2")
       (auto simp: f r)
qed

theorem compiler_invoker_outcome_witness:
  "fst (convertTypeScriptFiles (example_env compiler_succeeds) (Dir [])) = Some True
   \<and> fst (convertTypeScriptFiles (example_env compiler_emits_in_retry) (Dir [])) = Some True
   \<and> fst (convertTypeScriptFiles (example_env compiler_fails) (Dir [])) = Some False
   \<and> snd (snd (convertTypeScriptFiles (example_env compiler_fails) (Dir [])))
       = [tsc_command (example_env compiler_fails), tsc_retry_command (example_env compiler_fails)]"
proof -
  let ?a = "example_env compiler_succeeds" and ?b = "example_env compiler_emits_in_retry"
    and ?c = "example_env compiler_fails"
  have a: "fst (execSync ?a (tsc_command ?a) (Dir [])) \<noteq> None"
    by (simp add: example_env_def compiler_succeeds_def)
  have b: "fst (execSync ?b (tsc_command ?b) (Dir [])) = None
      \<and> output_missing (snd (execSync ?b (tsc_command ?b) (Dir [])))
      \<and> output_present (snd (execSync ?b (tsc_retry_command ?b) (snd (execSync ?b (tsc_command ?b) (Dir [])))))"
    by (simp add: example_env_def compiler_emits_in_retry_def tsc_command_def tsc_retry_command_def
        output_missing_def output_present_def jsOutputDir_def outputDir_def tsconfigPath_def js_def)
  have c: "fst (execSync ?c (tsc_command ?c) (Dir [])) = None
      \<and> output_missing (snd (execSync ?c (tsc_command ?c) (Dir [])))
      \<and> fst (execSync ?c (tsc_retry_command ?c) (snd (execSync ?c (tsc_command ?c) (Dir [])))) = None
      \<and> output_missing (snd (execSync ?c (tsc_retry_command ?c) (snd (execSync ?c (tsc_command ?c) (Dir [])))))"
    by (simp add: example_env_def compiler_fails_def output_missing_def jsOutputDir_def outputDir_def)
  from compiler_invoker_outcome[of ?a "Dir []"] a
  have 1: "fst (convertTypeScriptFiles ?a (Dir [])) = Some True" by blast
  from compiler_invoker_outcome[of ?b "Dir []"] b
  have 2: "fst (convertTypeScriptFiles ?b (Dir [])) = Some True" by blast
  from compiler_invoker_outcome[of ?c "Dir []"] c
  have 3: "fst (convertTypeScriptFiles ?c (Dir [])) = Some False
     \<and> snd (snd (convertTypeScriptFiles ?c (Dir []))) = [tsc_command ?c, tsc_retry_command ?c]"
    by blast
  from 1 2 3 show ?thesis by simp
qed


section \<open>Removing and renaming files\<close>

lemma map_of_delete_other: "k' \<noteq> k \<Longrightarrow> map_of (AList.delete k es) k' = map_of es k'"
  by (simp add: delete_conv')

lemma readFileSync_rm_rf_same: "p \<noteq> [] \<Longrightarrow> readFileSync (rm_rf t p) p = None"
proof (induction t p rule: rm_rf.induct)
  case (3 es x xs)
  show ?case
  proof (cases "xs = []")
    case True
    then show ?thesis by (simp add: readFileSync_def delete_conv')
  next
    case False
    with 3 show ?thesis
      by (cases "map_of es x") (auto simp: readFileSync_def update_conv')
  qed
qed (auto simp: readFileSync_def)

lemma readFileSync_rm_rf_other:
  "readFileSync t p = Some c0 \<Longrightarrow> q \<noteq> p \<Longrightarrow> readFileSync (rm_rf t p) q = readFileSync t q"
proof (induction t p arbitrary: q rule: rm_rf.induct)
  case (1 n)
  then show ?case by simp
next
  case (2 c x xs)
  then show ?case by simp
next
  case (3 es x xs)
  show ?case
  proof (cases q)
    case Nil
    then show ?thesis by (auto simp: readFileSync_def split: option.splits)
  next
    case (Cons y ys)
    show ?thesis
    proof (cases "xs = []")
      case True
      show ?thesis
      proof (cases "y = x")
        case yx: True
        with 3(3) Cons True have "ys \<noteq> []" by simp
        then obtain z zs where ys: "ys = z # zs" by (cases ys) auto
        from 3(2) True have "\<exists>c. map_of es x = Some (File c)"
          by (auto simp: readFileSync_def split: option.splits node.splits)
        with yx True Cons ys show ?thesis by (auto simp: readFileSync_def delete_conv')
      next
        case False
        with True Cons show ?thesis by (simp add: readFileSync_def delete_conv')
      qed
    next
      case False
      from 3(2) obtain n where n: "map_of es x = Some n" and rn: "readFileSync n xs = Some c0"
        by (auto simp: readFileSync_def split: option.splits)
      show ?thesis
      proof (cases "y = x")
        case True
        with 3(3) Cons have "ys \<noteq> xs" by simp
        from 3(1)[OF False n rn this] True n False Cons show ?thesis
          by (simp add: readFileSync_def update_conv')
      next
        case yx: False
        with n False Cons show ?thesis by (simp add: readFileSync_def update_conv')
      qed
    qed
  qed
qed

lemma isDirectory_rm_rf:
  "readFileSync t p = Some c0 \<Longrightarrow> isDirectory (rm_rf t p) q = isDirectory t q"
proof (induction t p arbitrary: q rule: rm_rf.induct)
  case (1 n)
  then show ?case by simp
next
  case (2 c x xs)
  then show ?case by simp
next
  case (3 es x xs)
  show ?case
  proof (cases q)
    case Nil
    then show ?thesis by (auto simp: isDirectory_def split: option.splits)
  next
    case (Cons y ys)
    show ?thesis
    proof (cases "xs = []")
      case True
      from 3(2) True have f: "\<exists>c. map_of es x = Some (File c)"
        by (auto simp: readFileSync_def split: option.splits node.splits)
      show ?thesis
      proof (cases "y = x")
        case yx: True
        with f True Cons show ?thesis
          by (cases ys) (auto simp: isDirectory_def delete_conv')
      next
        case False
        with True Cons show ?thesis by (simp add: isDirectory_def delete_conv')
      qed
    next
      case False
      from 3(2) obtain n where n: "map_of es x = Some n" and rn: "readFileSync n xs = Some c0"
        by (auto simp: readFileSync_def split: option.splits)
      show ?thesis
      proof (cases "y = x")
        case True
        from 3(1)[OF False n rn, of ys] True n False Cons show ?thesis
          by (simp add: isDirectory_def update_conv')
      next
        case yx: False
        with n False Cons show ?thesis by (simp add: isDirectory_def update_conv')
      qed
    qed
  qed
qed

lemma isDirectory_write:
  "writeFileSync t p c = Some t' \<Longrightarrow> isDirectory t' q = isDirectory t q"
proof (induction t p c arbitrary: t' q rule: writeFileSync.induct)
  case (1 old c)
  then show ?case by (cases q) (auto simp: isDirectory_def)
next
  case (4 es x xs c)
  show ?case
  proof (cases q)
    case Nil
    with 4 show ?thesis by (auto simp: isDirectory_def split: option.splits if_splits)
  next
    case (Cons y ys)
    show ?thesis
    proof (cases "map_of es x")
      case None
      with 4 Cons show ?thesis
        by (cases ys) (auto simp: isDirectory_def map_add_def split: option.splits if_splits)
    next
      case (Some n)
      with 4(2) obtain n' where n': "writeFileSync n xs c = Some n'"
        and t': "t' = Dir (AList.update x n' es)"
        by (auto split: option.splits)
      show ?thesis
      proof (cases "y = x")
        case True
        from 4(1)[OF Some n', of ys] True Some t' Cons show ?thesis
          by (simp add: isDirectory_def update_conv')
      next
        case False
        with t' Cons show ?thesis by (simp add: isDirectory_def update_conv')
      qed
    qed
  qed
qed auto

lemma write_beside_removed:
  assumes "readFileSync t (ps @ [a]) = Some c0" and "\<not> isDirectory t (ps @ [b])" and "a \<noteq> b"
  shows "\<exists>t'. writeFileSync (rm_rf t (ps @ [a])) (ps @ [b]) c = Some t'"
  using assms
proof (induction ps arbitrary: t)
  case Nil
  then obtain es where t: "t = Dir es" and "map_of es a = Some (File c0)"
    by (cases t) (auto simp: readFileSync_def split: option.splits node.splits)
  show ?case
  proof (cases "map_of es b")
    case None
    with t Nil(3) show ?thesis by (simp add: delete_conv')
  next
    case (Some n)
    with Nil(2) t obtain d where "n = File d" by (cases n) (auto simp: isDirectory_def)
    with Some t Nil(3) show ?thesis by (simp add: delete_conv')
  qed
next
  case (Cons x xs)
  then obtain es n where t: "t = Dir es" and n: "map_of es x = Some n"
    and rn: "readFileSync n (xs @ [a]) = Some c0"
    by (cases t) (auto simp: readFileSync_def split: option.splits)
  from Cons(3) t n have "\<not> isDirectory n (xs @ [b])" by (simp add: isDirectory_def)
  from Cons.IH[OF rn this Cons(4)] obtain n' where
    "writeFileSync (rm_rf n (xs @ [a])) (xs @ [b]) c = Some n'" by blast
  with t n show ?case by (simp add: update_conv')
qed

section \<open>The extension classifier\<close>

lemma js_ext_literals: "js ''.js'' = [0x2E, 0x6A, 0x73]" "js ''.jsx'' = [0x2E, 0x6A, 0x73, 0x78]"
  by (simp_all add: js_def)

lemma jsx_name_last: "last (jsx_name file) = take (length (last file) - 3) (last file) @ js ''.jsx''"
  by (simp add: jsx_name_def js_ext_literals numeral_3_eq_3)

lemma jsx_name_not_js: "\<not> ends_js (jsx_name file)"
  by (simp add: ends_js_def jsx_name_last endsWith_def js_ext_literals suffix_def)

lemma jsx_name_split:
  assumes "ends_js file"
  shows "file = butlast file @ [last file]" and "jsx_name file = butlast file @ [last (jsx_name file)]"
    and "last file \<noteq> last (jsx_name file)"
proof -
  from assms show "file = butlast file @ [last file]" by (simp add: ends_js_def)
  show "jsx_name file = butlast file @ [last (jsx_name file)]" by (simp add: jsx_name_def)
  from assms obtain stem where "last file = stem @ js ''.js''"
    by (auto simp: ends_js_def endsWith_def suffix_def)
  then show "last file \<noteq> last (jsx_name file)"
    by (simp add: jsx_name_last js_ext_literals)
qed

lemma jsx_name_neq: "ends_js file \<Longrightarrow> jsx_name file \<noteq> file"
  using jsx_name_not_js by metis

lemma jsx_name_inj:
  assumes "ends_js f" and "ends_js g" and "jsx_name f = jsx_name g"
  shows "f = g"
proof -
  from assms(1) obtain s where s: "last f = s @ js ''.js''"
    by (auto simp: ends_js_def endsWith_def suffix_def)
  from assms(2) obtain r where r: "last g = r @ js ''.js''"
    by (auto simp: ends_js_def endsWith_def suffix_def)
  from assms(3) have "butlast f = butlast g" and "last (jsx_name f) = last (jsx_name g)"
    by (simp_all add: jsx_name_def)
  with s r have "s = r" by (simp add: jsx_name_last js_ext_literals)
  with s r have "last f = last g" by simp
  with \<open>butlast f = butlast g\<close> assms(1,2) show ?thesis
    by (metis append_butlast_last_id ends_js_def)
qed

lemma step_unreadable: "readFileSync t g = None \<Longrightarrow> processJavaScriptFile t g = t"
  by (simp add: processJavaScriptFile_def)

lemma step_not_js: "\<not> ends_js g \<Longrightarrow> processJavaScriptFile t g = t"
  by (auto simp: processJavaScriptFile_def ends_js_def split: option.splits)

lemma step_no_markup:
  "readFileSync t g = Some c \<Longrightarrow> \<not> looks_like_markup c \<Longrightarrow> processJavaScriptFile t g = t"
  by (simp add: processJavaScriptFile_def)

lemma step_blocked:
  "isDirectory t (jsx_name g) \<Longrightarrow> processJavaScriptFile t g = t"
  by (auto simp: processJavaScriptFile_def renameSync_def isDirectory_def
      split: option.splits node.splits)

lemma step_renames:
  assumes "readFileSync t g = Some c" and "ends_js g" and "looks_like_markup c"
    and "\<not> isDirectory t (jsx_name g)"
  shows "readFileSync (processJavaScriptFile t g) g = None"
    and "readFileSync (processJavaScriptFile t g) (jsx_name g) = Some c"
proof -
  let ?new = "jsx_name g"
  have "\<exists>t'. writeFileSync (rm_rf t (butlast g @ [last g])) (butlast g @ [last ?new]) c = Some t'"
    using assms jsx_name_split[OF assms(2)] by (intro write_beside_removed[where ?c0.0 = c]) auto
  then obtain t' where w: "writeFileSync (rm_rf t g) ?new c = Some t'"
    using jsx_name_split[OF assms(2)] by auto
  from assms(4) have "\<forall>es. lookup t ?new \<noteq> Some (Dir es)"
    by (auto simp: isDirectory_def)
  with assms(1) w have rn: "renameSync t g ?new = Some t'"
    by (auto simp: renameSync_def split: option.splits node.splits)
  with assms have step: "processJavaScriptFile t g = t'"
    by (simp add: processJavaScriptFile_def ends_js_def)
  have ne: "g \<noteq> []" using assms(2) by (simp add: ends_js_def)
  show "readFileSync (processJavaScriptFile t g) (jsx_name g) = Some c"
    unfolding step by (rule readFileSync_write_same[OF w])
  have "readFileSync t' g = readFileSync (rm_rf t g) g"
    using jsx_name_neq[OF assms(2)] by (intro readFileSync_write_other[OF w]) auto
  then show "readFileSync (processJavaScriptFile t g) g = None"
    unfolding step by (simp add: readFileSync_rm_rf_same[OF ne])
qed

lemma step_read_other:
  assumes "q \<noteq> g" and "q \<noteq> jsx_name g"
  shows "readFileSync (processJavaScriptFile t g) q = readFileSync t q"
proof (cases "readFileSync t g")
  case None
  then show ?thesis by (simp add: step_unreadable)
next
  case (Some c)
  show ?thesis
  proof (cases "renameSync t g (jsx_name g)")
    case None
    with Some show ?thesis by (simp add: processJavaScriptFile_def)
  next
    case rn: (Some t')
    with Some have w: "writeFileSync (rm_rf t g) (jsx_name g) c = Some t'"
      by (auto simp: renameSync_def split: option.splits node.splits)
    have "readFileSync t' q = readFileSync (rm_rf t g) q"
      using assms(2) by (rule readFileSync_write_other[OF w])
    also have "\<dots> = readFileSync t q"
      using assms(1) by (rule readFileSync_rm_rf_other[OF Some])
    finally show ?thesis using Some rn by (simp add: processJavaScriptFile_def)
  qed
qed

lemma step_isDirectory: "isDirectory (processJavaScriptFile t g) q = isDirectory t q"
proof (cases "readFileSync t g")
  case None
  then show ?thesis by (simp add: step_unreadable)
next
  case (Some c)
  show ?thesis
  proof (cases "renameSync t g (jsx_name g)")
    case None
    with Some show ?thesis by (simp add: processJavaScriptFile_def)
  next
    case rn: (Some t')
    with Some have w: "writeFileSync (rm_rf t g) (jsx_name g) c = Some t'"
      by (auto simp: renameSync_def split: option.splits node.splits)
    have "isDirectory t' q = isDirectory t q"
      using isDirectory_write[OF w] isDirectory_rm_rf[OF Some] by simp
    then show ?thesis using Some rn by (simp add: processJavaScriptFile_def)
  qed
qed

text \<open>A renamed file stays renamed.\<close>

lemma loop_keeps_renamed:
  assumes "ends_js f"
  shows "readFileSync t f = None \<Longrightarrow> readFileSync t (jsx_name f) = Some c \<Longrightarrow>
         readFileSync (foldl processJavaScriptFile t files) f = None
         \<and> readFileSync (foldl processJavaScriptFile t files) (jsx_name f) = Some c"
proof (induction files arbitrary: t)
  case Nil
  then show ?case by simp
next
  case (Cons g files)
  have "readFileSync (processJavaScriptFile t g) f = None
        \<and> readFileSync (processJavaScriptFile t g) (jsx_name f) = Some c"
  proof (cases "ends_js g \<and> g \<noteq> f")
    case True
    then have 1: "f \<noteq> g" and 2: "f \<noteq> jsx_name g" and 3: "jsx_name f \<noteq> g"
      and 4: "jsx_name f \<noteq> jsx_name g"
      using assms jsx_name_not_js jsx_name_inj by metis+
    from Cons.prems show ?thesis
      by (simp add: step_read_other[OF 1 2] step_read_other[OF 3 4])
  next
    case False
    then have "processJavaScriptFile t g = t"
      using step_not_js step_unreadable Cons.prems(1) by metis
    with Cons.prems show ?thesis by simp
  qed
  then show ?case using Cons.IH by simp
qed

text \<open>A file \<open>.js\<close> that is not to be renamed stays.\<close>

lemma loop_keeps_js:
  assumes "ends_js f" and "\<not> looks_like_markup c \<or> d"
  shows "readFileSync t f = Some c \<Longrightarrow> isDirectory t (jsx_name f) = d \<Longrightarrow>
         readFileSync (foldl processJavaScriptFile t files) f = Some c"
proof (induction files arbitrary: t)
  case Nil
  then show ?case by simp
next
  case (Cons g files)
  have "readFileSync (processJavaScriptFile t g) f = Some c"
  proof (cases "g = f")
    case True
    with assms(2) Cons.prems have "processJavaScriptFile t g = t"
      using step_no_markup step_blocked by metis
    with Cons.prems show ?thesis by simp
  next
    case False
    then have "f \<noteq> g" and "f \<noteq> jsx_name g"
      using assms(1) jsx_name_not_js by metis+
    with Cons.prems show ?thesis by (simp add: step_read_other)
  qed
  moreover have "isDirectory (processJavaScriptFile t g) (jsx_name f) = d"
    using Cons.prems by (simp add: step_isDirectory)
  ultimately show ?case using Cons.IH by simp
qed

lemma loop_js_before:
  assumes "ends_js f" and "f \<notin> set files"
  shows "readFileSync (foldl processJavaScriptFile t files) f = readFileSync t f"
  using assms(2)
proof (induction files arbitrary: t)
  case Nil
  then show ?case by simp
next
  case (Cons g files)
  then have "f \<noteq> g" and "f \<noteq> jsx_name g"
    using assms(1) jsx_name_not_js by auto
  then have "readFileSync (processJavaScriptFile t g) f = readFileSync t f"
    by (rule step_read_other)
  with Cons show ?case by simp
qed

lemma loop_isDirectory: "isDirectory (foldl processJavaScriptFile t files) q = isDirectory t q"
  by (induction files arbitrary: t) (simp_all add: step_isDirectory)

lemma loop_renames:
  assumes "ends_js f" and "f \<in> set files" and "readFileSync t f = Some c"
    and "looks_like_markup c" and "\<not> isDirectory t (jsx_name f)"
  shows "readFileSync (foldl processJavaScriptFile t files) f = None
         \<and> readFileSync (foldl processJavaScriptFile t files) (jsx_name f) = Some c"
proof -
  from assms(2) obtain pre post where files: "files = pre @ f # post" and "f \<notin> set pre"
    using split_list_first[of f files] by blast
  let ?t1 = "foldl processJavaScriptFile t pre"
  have r1: "readFileSync ?t1 f = Some c"
    using loop_js_before[OF assms(1) \<open>f \<notin> set pre\<close>] assms(3) by simp
  have d1: "\<not> isDirectory ?t1 (jsx_name f)"
    using assms(5) by (simp add: loop_isDirectory)
  let ?t2 = "processJavaScriptFile ?t1 f"
  have "readFileSync ?t2 f = None" and "readFileSync ?t2 (jsx_name f) = Some c"
    using step_renames[OF r1 assms(1,4) d1] by auto
  from loop_keeps_renamed[OF assms(1) this, of post] show ?thesis
    by (simp add: files)
qed

text \<open>A file that is not \<open>.js\<close> stays, unless a file \<open>.js\<close> with markup takes its name.\<close>

lemma loop_keeps_other:
  assumes "\<not> ends_js h"
  shows "readFileSync t h = Some c \<Longrightarrow>
         \<forall>g\<in>set files. ends_js g \<and> jsx_name g = h \<longrightarrow>
            (\<forall>c'. readFileSync t g = Some c' \<longrightarrow> \<not> looks_like_markup c') \<Longrightarrow>
         readFileSync (foldl processJavaScriptFile t files) h = Some c"
proof (induction files arbitrary: t)
  case Nil
  then show ?case by simp
next
  case (Cons g files)
  let ?t = "processJavaScriptFile t g"
  have keep: "readFileSync ?t h = Some c \<and>
      (\<forall>g'\<in>set files. ends_js g' \<and> jsx_name g' = h \<longrightarrow> readFileSync ?t g' = readFileSync t g')"
  proof (cases "ends_js g")
    case False
    then have "?t = t" by (rule step_not_js)
    with Cons.prems show ?thesis by simp
  next
    case True
    show ?thesis
    proof (cases "jsx_name g = h")
      case same: True
      have "?t = t"
      proof (cases "readFileSync t g")
        case None
        then show ?thesis by (rule step_unreadable)
      next
        case (Some c')
        with Cons.prems(2) True same have "\<not> looks_like_markup c'" by simp
        with Some show ?thesis by (rule step_no_markup)
      qed
      with Cons.prems show ?thesis by simp
    next
      case False
      have "h \<noteq> g" using True assms by auto
      with False have 1: "readFileSync ?t h = readFileSync t h"
        by (intro step_read_other) auto
      have 2: "readFileSync ?t g' = readFileSync t g'" if "ends_js g'" "jsx_name g' = h" for g'
      proof -
        from that False have "g' \<noteq> g" by auto
        moreover from that(1) have "g' \<noteq> jsx_name g" using jsx_name_not_js by metis
        ultimately show ?thesis by (rule step_read_other)
      qed
      from 1 2 Cons.prems(1) show ?thesis by simp
    qed
  qed
  then have "\<forall>g'\<in>set files. ends_js g' \<and> jsx_name g' = h \<longrightarrow>
      (\<forall>c'. readFileSync ?t g' = Some c' \<longrightarrow> \<not> looks_like_markup c')"
    using Cons.prems(2) by simp
  with keep Cons.IH[of ?t] show ?case by simp
qed

text \<open>
  C1, as amended. Let the classifier run on a tree in which \<open>file\<close> can be read. If the
  scan lists the file, its name ends in \<open>.js\<close>, its content holds a \<open><\<close>, then a word
  character, then one character that is white space, \<open>>\<close> or \<open>/\<close>, and no directory has
  the new name, then the file is renamed: the old name is gone and the content is under
  the name with \<open>.jsx\<close>. A file \<open>.js\<close> without such a match (or whose new name is a
  directory) is left as it is. So is every other file, those ending in \<open>.jsx\<close> among
  them, unless the scan lists a file \<open>.js\<close> with such a match that takes its name.
\<close>

theorem classifier_renames:
  assumes "readFileSync t file = Some original"
  shows "(file \<in> set (glob_output_js t) \<and> ends_js file \<and> looks_like_markup original
            \<and> \<not> isDirectory t (jsx_name file) \<longrightarrow>
          readFileSync (processJavaScriptFiles t) file = None
          \<and> readFileSync (processJavaScriptFiles t) (jsx_name file) = Some original)
       \<and> (ends_js file \<and> (\<not> looks_like_markup original \<or> isDirectory t (jsx_name file)) \<longrightarrow>
          readFileSync (processJavaScriptFiles t) file = Some original)
       \<and> (\<not> ends_js file
            \<and> (\<forall>g\<in>set (glob_output_js t). ends_js g \<and> jsx_name g = file \<longrightarrow>
                  (\<forall>c. readFileSync t g = Some c \<longrightarrow> \<not> looks_like_markup c)) \<longrightarrow>
          readFileSync (processJavaScriptFiles t) file = Some original)"
proof (intro conjI impI)
  assume "file \<in> set (glob_output_js t) \<and> ends_js file \<and> looks_like_markup original
            \<and> \<not> isDirectory t (jsx_name file)"
  then show "readFileSync (processJavaScriptFiles t) file = None"
    and "readFileSync (processJavaScriptFiles t) (jsx_name file) = Some original"
    using loop_renames[of "file" "glob_output_js t" t original] assms
    by (simp_all add: processJavaScriptFiles_def)
next
  assume a: "ends_js file \<and> (\<not> looks_like_markup original \<or> isDirectory t (jsx_name file))"
  then have "\<not> looks_like_markup original \<or> isDirectory t (jsx_name file)" by simp
  from loop_keeps_js[OF _ this assms refl] a
  show "readFileSync (processJavaScriptFiles t) file = Some original"
    by (simp add: processJavaScriptFiles_def)
next
  assume "\<not> ends_js file
            \<and> (\<forall>g\<in>set (glob_output_js t). ends_js g \<and> jsx_name g = file \<longrightarrow>
                  (\<forall>c. readFileSync t g = Some c \<longrightarrow> \<not> looks_like_markup c))"
  then show "readFileSync (processJavaScriptFiles t) file = Some original"
    using loop_keeps_other[of "file" t original "glob_output_js t"] assms
    by (simp add: processJavaScriptFiles_def)
qed

theorem classifier_renames_witness:
  "readFileSync (processJavaScriptFiles example_output) (jsOutputDir @ [js ''menu.js'']) = None
   \<and> readFileSync (processJavaScriptFiles example_output) (jsOutputDir @ [js ''menu.jsx''])
       = Some (js ''const m = <a href={u}>x</a>;'')
   \<and> readFileSync (processJavaScriptFiles example_output) (jsOutputDir @ [js ''util.js''])
       = Some (js ''export const lt = (a, b) => a < b;'')
   \<and> readFileSync (processJavaScriptFiles example_output) (jsOutputDir @ [js ''page.jsx''])
       = Some (js ''export default () => <div/>;'')"
proof -
  let ?menu = "jsOutputDir @ [js ''menu.js'']" and ?util = "jsOutputDir @ [js ''util.js'']"
    and ?page = "jsOutputDir @ [js ''page.jsx'']"
  have m: "readFileSync example_output ?menu = Some (js ''const m = <a href={u}>x</a>;'')"
    by code_simp
  have m': "?menu \<in> set (glob_output_js example_output) \<and> ends_js ?menu
      \<and> looks_like_markup (js ''const m = <a href={u}>x</a>;'')
      \<and> \<not> isDirectory example_output (jsx_name ?menu)"
    by code_simp
  have mn: "jsx_name ?menu = jsOutputDir @ [js ''menu.jsx'']"
    by code_simp
  have u: "readFileSync example_output ?util = Some (js ''export const lt = (a, b) => a < b;'')"
    by code_simp
  have u': "ends_js ?util \<and> \<not> looks_like_markup (js ''export const lt = (a, b) => a < b;'')"
    by code_simp
  have p: "readFileSync example_output ?page = Some (js ''export default () => <div/>;'')"
    by code_simp
  have "\<not> ends_js ?page
      \<and> (\<forall>g\<in>set (glob_output_js example_output). \<not> (ends_js g \<and> jsx_name g = ?page))"
    by code_simp
  then have p': "\<not> ends_js ?page
      \<and> (\<forall>g\<in>set (glob_output_js example_output). ends_js g \<and> jsx_name g = ?page \<longrightarrow>
            (\<forall>c. readFileSync example_output g = Some c \<longrightarrow> \<not> looks_like_markup c))"
    by blast
  from classifier_renames[OF m] m' mn
  have 1: "readFileSync (processJavaScriptFiles example_output) ?menu = None
     \<and> readFileSync (processJavaScriptFiles example_output) (jsOutputDir @ [js ''menu.jsx''])
       = Some (js ''const m = <a href={u}>x</a>;'')"
    by simp
  from classifier_renames[OF u] u'
  have 2: "readFileSync (processJavaScriptFiles example_output) ?util
       = Some (js ''export const lt = (a, b) => a < b;'')"
    by blast
  from classifier_renames[OF p] p'
  have 3: "readFileSync (processJavaScriptFiles example_output) ?page
       = Some (js ''export default () => <div/>;'')"
    by blast
  from 1 2 3 show ?thesis by simp
qed

text \<open>
  The claim as it stands fails on \<open>colliding_output\<close>. The content of \<open>a.js\<close> holds
  \<open><p>\<close> and \<open></p>\<close>, but neither white space nor \<open>/>\<close> behind a \<open><\<close> and a word
  character, and the file is renamed all the same; and the file \<open>a.jsx\<close>, which ended in
  \<open>.jsx\<close> already, is overwritten by it.
\<close>

theorem classifier_renames_counterexample:
  "readFileSync colliding_output (jsOutputDir @ [js ''a.js'']) = Some (js ''<p>x</p>'')
   \<and> \<not> spec_markup (js ''<p>x</p>'')
   \<and> readFileSync (processJavaScriptFiles colliding_output) (jsOutputDir @ [js ''a.js'']) = None
   \<and> readFileSync colliding_output (jsOutputDir @ [js ''a.jsx'']) = Some (js ''old'')
   \<and> readFileSync (processJavaScriptFiles colliding_output) (jsOutputDir @ [js ''a.jsx''])
       = Some (js ''<p>x</p>'')"
  by code_simp

section \<open>The run\<close>

lemma update_absent: "map_of es k = None \<Longrightarrow> AList.update k v es = es @ [(k, v)]"
  by (induction es) auto

lemma update_last: "map_of es k = None \<Longrightarrow> AList.update k v (es @ [(k, w)]) = es @ [(k, v)]"
  by (induction es) auto

lemma setup_output_tree:
  "setup_output (Dir es) =
     Some (Dir (AList.delete (js ''output'') es @ [(js ''output'', Dir [(js ''js'', Dir [])])]))"
proof -
  let ?es = "AList.delete (js ''output'') es"
  have none: "map_of ?es (js ''output'') = None" by (simp add: delete_conv')
  have rm: "(if existsSync (Dir es) outputDir then rm_rf (Dir es) outputDir else Dir es) = Dir ?es"
  proof (cases "map_of es (js ''output'')")
    case None
    then have "?es = es" by (simp add: delete_notin_dom map_of_eq_None_iff delete_id)
    with None show ?thesis by (simp add: existsSync_def outputDir_def)
  next
    case (Some n)
    then show ?thesis by (simp add: existsSync_def outputDir_def)
  qed
  have 1: "ensureDirectory (Dir ?es) outputDir = Some (Dir (?es @ [(js ''output'', Dir [])]))"
    using none by (simp add: ensureDirectory_def existsSync_def outputDir_def update_absent)
  have 2: "ensureDirectory (Dir (?es @ [(js ''output'', Dir [])])) jsOutputDir
        = Some (Dir (?es @ [(js ''output'', Dir [(js ''js'', Dir [])])]))"
    using none
    by (simp add: ensureDirectory_def existsSync_def jsOutputDir_def outputDir_def
        map_add_def update_last)
  show ?thesis
    unfolding setup_output_def rm by (simp add: 1 2)
qed

lemma source_outside_output:
  "existsSync (Dir es) sourceDir = existsSync (Dir (AList.delete (js ''output'') es)) sourceDir"
proof -
  have "js ''resources'' \<noteq> js ''output''" by (simp add: js_def)
  then show ?thesis by (simp add: existsSync_def sourceDir_def delete_conv')
qed

lemma exists_is_directory: "existsSync t sourceDir \<Longrightarrow> \<exists>es. t = Dir es"
  by (cases t) (auto simp: existsSync_def sourceDir_def)

lemma rm_rf_output_tree: "rm_rf (Dir es) outputDir = Dir (AList.delete (js ''output'') es)"
  by (simp add: outputDir_def)

lemma after_validation_fresh:
  assumes "rm_rf s0 outputDir = rm_rf t0 outputDir" and "existsSync t0 sourceDir"
  shows "after_validation e s0 = after_validation e t0" and "existsSync s0 sourceDir"
proof -
  from assms(2) obtain es where t0: "t0 = Dir es"
    using exists_is_directory by blast
  with assms(1) obtain fs where s0: "s0 = Dir fs"
    by (cases s0) (auto simp: outputDir_def)
  from assms(1) t0 s0 have eq: "AList.delete (js ''output'') fs = AList.delete (js ''output'') es"
    by (simp add: outputDir_def)
  then have "setup_output s0 = setup_output t0" by (simp add: t0 s0 setup_output_tree)
  then show "after_validation e s0 = after_validation e t0"
    by (simp add: after_validation_def initial_copy_def)
  from assms(2) eq show "existsSync s0 sourceDir"
    unfolding t0 s0 source_outside_output[of es] source_outside_output[of fs] by simp
qed

text \<open>
  C4, as amended. In every run that passes the validation (the compiler reports its
  version and the source directory exists), the output directory is removed with all it
  holds and created again before anything is copied: the initial copy starts on a tree
  whose output directory holds the empty directory for the compiler output and nothing
  else, the rest of the tree being as it was. What such a run returns does not depend
  on what the output directory held: two runs on trees that differ in the output
  directory only give the same result.
\<close>

theorem staging_rebuilt:
  assumes "checkDependencies e t = (True, t0)" and "existsSync t0 sourceDir"
  shows "(\<exists>t1. setup_output t0 = Some t1
            \<and> lookup t1 outputDir = Some (Dir [(js ''js'', Dir [])])
            \<and> rm_rf t1 outputDir = rm_rf t0 outputDir)
       \<and> (\<forall>s s0. checkDependencies e s = (True, s0) \<and> rm_rf s0 outputDir = rm_rf t0 outputDir
             \<longrightarrow> run e s = run e t)"
proof -
  from assms(2) obtain es where t0: "t0 = Dir es"
    using exists_is_directory by blast
  let ?es = "AList.delete (js ''output'') es"
  have none: "map_of ?es (js ''output'') = None" by (simp add: delete_conv')
  have 1: "setup_output t0 = Some (Dir (?es @ [(js ''output'', Dir [(js ''js'', Dir [])])]))"
    unfolding t0 by (rule setup_output_tree)
  have 2: "lookup (Dir (?es @ [(js ''output'', Dir [(js ''js'', Dir [])])])) outputDir
        = Some (Dir [(js ''js'', Dir [])])"
    using none by (simp add: outputDir_def map_add_def)
  have "AList.delete (js ''output'') (?es @ [(js ''output'', Dir [(js ''js'', Dir [])])]) = ?es"
    by (simp add: AList.delete_eq filter_filter)
  then have 3: "rm_rf (Dir (?es @ [(js ''output'', Dir [(js ''js'', Dir [])])])) outputDir
        = rm_rf t0 outputDir"
    by (simp add: t0 outputDir_def)
  have 4: "run e s = run e t"
    if "checkDependencies e s = (True, s0)" "rm_rf s0 outputDir = rm_rf t0 outputDir" for s s0
    using that assms after_validation_fresh[OF that(2) assms(2)]
    by (simp add: run_def)
  from 1 2 3 4 show ?thesis by blast
qed

theorem staging_rebuilt_witness:
  "checkDependencies (example_env tsc_version_only) example_project = (True, example_project)
   \<and> existsSync example_project sourceDir
   \<and> (\<exists>t1. setup_output example_project = Some t1
         \<and> lookup t1 outputDir = Some (Dir [(js ''js'', Dir [])])
         \<and> rm_rf t1 outputDir = rm_rf example_project outputDir)
   \<and> run (example_env tsc_version_only) example_project_clean
       = run (example_env tsc_version_only) example_project"
proof -
  let ?e = "example_env tsc_version_only"
  have 1: "checkDependencies ?e example_project = (True, example_project)"
    by code_simp
  have 2: "existsSync example_project sourceDir"
    by code_simp
  have 3: "checkDependencies ?e example_project_clean = (True, example_project_clean)"
    by code_simp
  have 4: "rm_rf example_project_clean outputDir = rm_rf example_project outputDir"
    by code_simp
  from staging_rebuilt[OF 1 2] 1 2 3 4 show ?thesis by blast
qed

text \<open>
  The claim as it stands fails for a run that does not pass the validation: \<open>run\<close>
  returns before the set-up, and what an earlier run left in the output directory is
  still there.
\<close>

theorem staging_rebuilt_counterexample:
  "run (example_env compiler_fails) example_project = Some example_project
   \<and> readFileSync example_project (outputDir @ [js ''stale.js''])
       = Some (js ''left by an earlier run'')"
  by code_simp

lemma convertTypeScriptFiles_failed:
  assumes "fst (convertTypeScriptFiles e t) = Some False"
  shows "convertTypeScriptFiles e t =
     (Some False, snd (execSync e (tsc_retry_command e) (snd (execSync e (tsc_command e) t))),
      [tsc_command e, tsc_retry_command e])"
proof -
  obtain r1 t1 where f: "execSync e (tsc_command e) t = (r1, t1)" by (cases "execSync e (tsc_command e) t")
  obtain r2 t2 where r: "execSync e (tsc_retry_command e) t1 = (r2, t2)"
    by (cases "execSync e (tsc_retry_command e) t1")
  from assms show ?thesis
    unfolding convertTypeScriptFiles_def f r
    by (cases r1; cases r2; cases "outputExists t1"; cases "outputExists t2")
       (auto simp: f r split: if_splits bool.splits)
qed

lemma lookup_write_top:
  "writeFileSync t [x] c = Some t' \<Longrightarrow> y \<noteq> x \<Longrightarrow> lookup t' (y # ys) = lookup t (y # ys)"
  by (cases t) (auto simp: map_add_def update_conv' split: option.splits if_splits)

lemma updateOutputEslintConfig_reads:
  assumes "updateOutputEslintConfig t2 = Some t3"
  shows "readFileSync t3 eslintConfig = map_option rewrite_ignores (readFileSync t2 eslintConfig)"
    and "p \<noteq> eslintConfig \<Longrightarrow> readFileSync t3 p = readFileSync t2 p"
proof -
  show "readFileSync t3 eslintConfig = map_option rewrite_ignores (readFileSync t2 eslintConfig)"
  proof (cases "existsSync t2 eslintConfig")
    case True
    with assms show ?thesis
      by (auto simp: updateOutputEslintConfig_def readFileSync_write_same split: option.splits)
  next
    case False
    then have "readFileSync t2 eslintConfig = None"
      by (simp add: existsSync_def readFileSync_def)
    with assms False show ?thesis by (simp add: updateOutputEslintConfig_def)
  qed
  show "readFileSync t3 p = readFileSync t2 p" if "p \<noteq> eslintConfig"
    using assms that
    by (auto simp: updateOutputEslintConfig_def readFileSync_write_other split: option.splits if_splits)
qed

text \<open>
  C3, as amended. Let a run pass the validation, let \<open>t2\<close> be the initial copy, \<open>t3\<close>
  the tree behind the rewrite of the lint configuration and \<open>t4\<close> the tree with the
  transient compiler configuration, and let the compiler fail on \<open>t4\<close> without output,
  also in the retry. Then \<open>run\<close> returns the tree that the two invocations of the
  compiler left, so no stage behind the compiler has run. Up to what the compiler did,
  the staging tree at the halt is that of \<open>t3\<close>: the initial copy in which the content of
  \<open>eslint.config.js\<close> has been rewritten, and nothing else.
\<close>

theorem compiler_failure_halts:
  assumes "checkDependencies e t = (True, t0)" and "existsSync t0 sourceDir"
    and "initial_copy t0 = Some t2"
    and "updateOutputEslintConfig t2 = Some t3"
    and "createTempTsConfig e t3 = Some t4"
    and "fst (convertTypeScriptFiles e t4) = Some False"
  shows "run e t = Some (snd (execSync e (tsc_retry_command e) (snd (execSync e (tsc_command e) t4))))
       \<and> lookup t4 outputDir = lookup t3 outputDir
       \<and> readFileSync t3 eslintConfig = map_option rewrite_ignores (readFileSync t2 eslintConfig)
       \<and> (\<forall>p. p \<noteq> eslintConfig \<longrightarrow> readFileSync t3 p = readFileSync t2 p)"
proof -
  have "run e t = Some (snd (execSync e (tsc_retry_command e) (snd (execSync e (tsc_command e) t4))))"
    using assms(1-5) convertTypeScriptFiles_failed[OF assms(6)]
    by (simp add: run_def after_validation_def)
  moreover have "lookup t4 outputDir = lookup t3 outputDir"
  proof -
    have "js ''output'' \<noteq> js ''tsconfig.temp.json''" by (simp add: js_def)
    with assms(5) show ?thesis
      by (simp add: createTempTsConfig_def tsconfigPath_def outputDir_def lookup_write_top)
  qed
  ultimately show ?thesis
    using updateOutputEslintConfig_reads[OF assms(4)] by blast
qed

theorem compiler_failure_halts_witness:
  \<open>checkDependencies (example_env tsc_version_only) example_project = (True, example_project)
   \<and> existsSync example_project sourceDir
   \<and> initial_copy example_project = Some example_copy
   \<and> updateOutputEslintConfig example_copy = Some example_linted
   \<and> createTempTsConfig (example_env tsc_version_only) example_linted = Some example_configured
   \<and> fst (convertTypeScriptFiles (example_env tsc_version_only) example_configured) = Some False
   \<and> run (example_env tsc_version_only) example_project = Some example_configured
   \<and> lookup example_configured outputDir = lookup example_linted outputDir
   \<and> readFileSync example_linted eslintConfig
       = map_option rewrite_ignores (readFileSync example_copy eslintConfig)\<close>
proof -
  let ?e = "example_env tsc_version_only"
  have 1: "checkDependencies ?e example_project = (True, example_project)"
    by code_simp
  have 2: "existsSync example_project sourceDir"
    by code_simp
  have 3: "initial_copy example_project = Some example_copy"
    by code_simp
  have 4: "updateOutputEslintConfig example_copy = Some example_linted"
    by code_simp
  have 5: "createTempTsConfig ?e example_linted = Some example_configured"
    by code_simp
  have 6: "fst (convertTypeScriptFiles ?e example_configured) = Some False"
    by code_simp
  have 7: "snd (execSync ?e (tsc_retry_command ?e) (snd (execSync ?e (tsc_command ?e) example_configured)))
      = example_configured"
    by code_simp
  from compiler_failure_halts[OF 1 2 3 4 5 6] 7
  have "run ?e example_project = Some example_configured
      \<and> lookup example_configured outputDir = lookup example_linted outputDir
      \<and> readFileSync example_linted eslintConfig
          = map_option rewrite_ignores (readFileSync example_copy eslintConfig)"
    by simp
  with 1 2 3 4 5 6 show ?thesis by simp
qed

text \<open>
  The claim as it stands fails on \<open>example_project\<close>: the compiler fails without
  output, the run halts, and \<open>eslint.config.js\<close> of the staging tree is not what the
  initial copy put there, since the lint configuration is rewritten before the compiler
  runs.
\<close>

theorem compiler_failure_halts_counterexample:
  \<open>initial_copy example_project = Some example_copy
   \<and> fst (convertTypeScriptFiles (example_env tsc_version_only) example_configured) = Some False
   \<and> run (example_env tsc_version_only) example_project = Some example_configured
   \<and> readFileSync example_copy eslintConfig
       = Some (js ''export default [{ ignores: ['vendor', 'output'] }];'')
   \<and> readFileSync example_configured eslintConfig
       = Some (js ''export default [{ ignores: ['vendor'] }];'')
   \<and> js ''export default [{ ignores: ['vendor'] }];''
       \<noteq> js ''export default [{ ignores: ['vendor', 'output'] }];''\<close>
  by code_simp



section \<open>The workflow self-test\<close>

lemma node_version_ok_examples:
  "node_version_ok (js ''v18.0.0\<newline>'')"
  "node_version_ok (js ''v22.3.0'')"
  "\<not> node_version_ok (js ''v16.20.2\<newline>'')"
  "\<not> node_version_ok (js ''v8'')"
  "\<not> node_version_ok []"
  by code_simp+

lemma run_checks_cleared: "fst (run_checks e checks False t) = False"
  by (induction checks arbitrary: t) (auto split: prod.splits option.splits)

lemma components_always_pass: "fst (testWorkflowComponents e t)"
  by (simp add: testWorkflowComponents_def Let_def)

lemma generateReport_throws:
  "generateReport e (Dir es) = None \<longleftrightarrow> isDirectory (Dir es) reportPath"
  by (simp add: generateReport_def reportPath_def isDirectory_def
      split: option.splits node.splits)

lemma tester_run_cases:
  "tester_run e t =
     (case generateReport e (before_report e t) of
        None \<Rightarrow> (1, before_report e t)
      | Some t5 \<Rightarrow>
          (if fst (checkPrerequisites e t)
               \<and> checkProjectStructure (after_prerequisites e t)
               \<and> fst (testConversion e (after_prerequisites e t))
               \<and> fst (testWorkflowComponents e (after_conversion e t))
           then 0 else 1, t5))"
  by (simp add: tester_run_def before_report_def after_conversion_def after_prerequisites_def
      Let_def split: prod.splits option.splits)

text \<open>
  Claim C9, as amended. The self-test exits with 0 exactly when each of the four checks
  (prerequisites, project structure, conversion with the verification of its output,
  workflow components) has returned true and the report could be written; in every
  other case it exits with 1.
\<close>

theorem self_test_exit_code:
  "(fst (tester_run e t) = 0 \<longleftrightarrow>
      fst (checkPrerequisites e t)
      \<and> checkProjectStructure (after_prerequisites e t)
      \<and> fst (testConversion e (after_prerequisites e t))
      \<and> fst (testWorkflowComponents e (after_conversion e t))
      \<and> generateReport e (before_report e t) \<noteq> None)
   \<and> (fst (tester_run e t) \<noteq> 0 \<longrightarrow> fst (tester_run e t) = 1)"
proof -
  obtain p1 t1 where c1: "checkPrerequisites e t = (p1, t1)"
    by (cases "checkPrerequisites e t")
  obtain p3 t3 where c3: "testConversion e t1 = (p3, t3)"
    by (cases "testConversion e t1")
  obtain p4 t4 where c4: "testWorkflowComponents e t3 = (p4, t4)"
    by (cases "testWorkflowComponents e t3")
  have trees: "after_prerequisites e t = t1" "after_conversion e t = t3" "before_report e t = t4"
    using c1 c3 c4 by (simp_all add: after_prerequisites_def after_conversion_def before_report_def)
  show ?thesis
  proof (cases "generateReport e t4")
    case None
    then have "fst (tester_run e t) = 1"
      using c1 c3 c4 by (simp add: tester_run_def)
    with None trees show ?thesis
      by simp
  next
    case (Some t5)
    then have "fst (tester_run e t) = (if p1 \<and> checkProjectStructure t1 \<and> p3 \<and> p4 then 0 else 1)"
      using c1 c3 c4 by (simp add: tester_run_def)
    with Some trees c1 c3 c4 show ?thesis
      by simp
  qed
qed

theorem self_test_exit_code_witness:
  "fst (checkPrerequisites (example_env (tools_installed (js ''v20.11.1\<newline>''))) tester_project)
   \<and> fst (tester_run (example_env (tools_installed (js ''v20.11.1\<newline>''))) tester_project) = 0
   \<and> \<not> fst (checkPrerequisites (example_env (tools_installed (js ''v16.20.2\<newline>''))) tester_project)
   \<and> fst (tester_run (example_env (tools_installed (js ''v16.20.2\<newline>''))) tester_project) = 1
   \<and> \<not> checkProjectStructure (after_prerequisites (example_env no_tools) (Dir []))
   \<and> fst (tester_run (example_env no_tools) (Dir [])) = 1"
proof -
  let ?new = "example_env (tools_installed (js ''v20.11.1\<newline>''))"
  let ?old = "example_env (tools_installed (js ''v16.20.2\<newline>''))"
  let ?none = "example_env no_tools"
  have 1: "fst (checkPrerequisites ?new tester_project)"
    by code_simp
  have 2: "checkProjectStructure (after_prerequisites ?new tester_project)"
    by code_simp
  have 3: "fst (testConversion ?new (after_prerequisites ?new tester_project))"
    by code_simp
  have 4: "fst (testWorkflowComponents ?new (after_conversion ?new tester_project))"
    by (rule components_always_pass)
  have 5: "generateReport ?new (before_report ?new tester_project) \<noteq> None"
    by code_simp
  have 6: "\<not> fst (checkPrerequisites ?old tester_project)"
    by code_simp
  have 7: "\<not> checkProjectStructure (after_prerequisites ?none (Dir []))"
    by code_simp
  from self_test_exit_code[of ?new tester_project] 1 2 3 4 5
  have a: "fst (tester_run ?new tester_project) = 0"
    by blast
  from self_test_exit_code[of ?old tester_project] 6
  have b: "fst (tester_run ?old tester_project) = 1"
    by blast
  from self_test_exit_code[of ?none "Dir []"] 7
  have c: "fst (tester_run ?none (Dir [])) = 1"
    by blast
  from 1 6 7 a b c show ?thesis
    by blast
qed

text \<open>
  The claim as it stands fails when the report cannot be written: with a directory at the
  path of the report all four checks return true, \<open>fs.writeFileSync\<close> throws, and the
  self-test exits with 1.
\<close>

theorem self_test_exit_code_counterexample:
  "fst (checkPrerequisites (example_env (tools_installed (js ''v20.11.1\<newline>''))) blocked_project)
   \<and> checkProjectStructure
        (after_prerequisites (example_env (tools_installed (js ''v20.11.1\<newline>''))) blocked_project)
   \<and> fst (testConversion (example_env (tools_installed (js ''v20.11.1\<newline>'')))
        (after_prerequisites (example_env (tools_installed (js ''v20.11.1\<newline>''))) blocked_project))
   \<and> fst (testWorkflowComponents (example_env (tools_installed (js ''v20.11.1\<newline>'')))
        (after_conversion (example_env (tools_installed (js ''v20.11.1\<newline>''))) blocked_project))
   \<and> fst (tester_run (example_env (tools_installed (js ''v20.11.1\<newline>''))) blocked_project) = 1"
proof -
  let ?e = "example_env (tools_installed (js ''v20.11.1\<newline>''))"
  have 1: "fst (checkPrerequisites ?e blocked_project)"
    by code_simp
  have 2: "checkProjectStructure (after_prerequisites ?e blocked_project)"
    by code_simp
  have 3: "fst (testConversion ?e (after_prerequisites ?e blocked_project))"
    by code_simp
  have 4: "fst (testWorkflowComponents ?e (after_conversion ?e blocked_project))"
    by code_simp
  have 5: "fst (tester_run ?e blocked_project) = 1"
    by code_simp
  from 1 2 3 4 5 show ?thesis
    by blast
qed

text \<open>
  Claim C10, as amended. Whatever the four checks returned: when \<open>fs.writeFileSync\<close> does
  not throw, the self-test leaves at the path of the report the serialisation of one
  object that depends on the clock only, whose \<open>status\<close> is \<open>completed\<close> and whose \<open>summary\<close>
  has \<open>passed\<close> in each of the fields \<open>prerequisites\<close>, \<open>structure\<close>, \<open>conversion\<close> and
  \<open>components\<close>; when it throws, the self-test writes nothing and exits with 1.
\<close>

theorem report_is_constant:
  "(generateReport e (before_report e t) \<noteq> None \<longrightarrow>
      readFileSync (snd (tester_run e t)) reportPath = Some (JSON_stringify e (report e) 2))
   \<and> (generateReport e (before_report e t) = None \<longrightarrow>
      snd (tester_run e t) = before_report e t \<and> fst (tester_run e t) = 1)
   \<and> get_prop (report e) (js ''timestamp'') = Some (JStr (toISOString e))
   \<and> get_prop (report e) (js ''status'') = Some (JStr (js ''completed''))
   \<and> summary_field (report e) (js ''prerequisites'') = Some (JStr (js ''passed''))
   \<and> summary_field (report e) (js ''structure'') = Some (JStr (js ''passed''))
   \<and> summary_field (report e) (js ''conversion'') = Some (JStr (js ''passed''))
   \<and> summary_field (report e) (js ''components'') = Some (JStr (js ''passed''))"
proof -
  have 1: "readFileSync (snd (tester_run e t)) reportPath = Some (JSON_stringify e (report e) 2)"
    if "generateReport e (before_report e t) \<noteq> None"
  proof -
    from that obtain t5 where w: "generateReport e (before_report e t) = Some t5"
      by auto
    then have "readFileSync t5 reportPath = Some (JSON_stringify e (report e) 2)"
      unfolding generateReport_def by (rule readFileSync_write_same)
    with w show ?thesis
      by (simp add: tester_run_cases)
  qed
  have 2: "snd (tester_run e t) = before_report e t \<and> fst (tester_run e t) = 1"
    if "generateReport e (before_report e t) = None"
    using that by (simp add: tester_run_cases)
  have 3: "get_prop (report e) (js ''timestamp'') = Some (JStr (toISOString e))"
    by (simp add: report_def js_def)
  have 4: "get_prop (report e) (js ''status'') = Some (JStr (js ''completed''))"
    by (simp add: report_def js_def)
  have 5: "summary_field (report e) (js ''prerequisites'') = Some (JStr (js ''passed''))"
    by (simp add: summary_field_def report_def js_def)
  have 6: "summary_field (report e) (js ''structure'') = Some (JStr (js ''passed''))"
    by (simp add: summary_field_def report_def js_def)
  have 7: "summary_field (report e) (js ''conversion'') = Some (JStr (js ''passed''))"
    by (simp add: summary_field_def report_def js_def)
  have 8: "summary_field (report e) (js ''components'') = Some (JStr (js ''passed''))"
    by (simp add: summary_field_def report_def js_def)
  from 1 2 3 4 5 6 7 8 show ?thesis
    by blast
qed

theorem report_is_constant_witness:
  "\<not> fst (checkPrerequisites (example_env no_tools) (Dir []))
   \<and> \<not> checkProjectStructure (after_prerequisites (example_env no_tools) (Dir []))
   \<and> \<not> fst (testConversion (example_env no_tools) (after_prerequisites (example_env no_tools) (Dir [])))
   \<and> fst (tester_run (example_env no_tools) (Dir [])) = 1
   \<and> generateReport (example_env no_tools) (before_report (example_env no_tools) (Dir [])) \<noteq> None
   \<and> readFileSync (snd (tester_run (example_env no_tools) (Dir []))) reportPath
       = Some (JSON_stringify (example_env no_tools) (report (example_env no_tools)) 2)
   \<and> summary_field (report (example_env no_tools)) (js ''prerequisites'')
       = Some (JStr (js ''passed''))
   \<and> generateReport (example_env no_tools) (before_report (example_env no_tools) blocked_project)
       = None
   \<and> snd (tester_run (example_env no_tools) blocked_project)
       = before_report (example_env no_tools) blocked_project"
proof -
  let ?e = "example_env no_tools"
  have 1: "\<not> fst (checkPrerequisites ?e (Dir []))"
    by code_simp
  have 2: "\<not> checkProjectStructure (after_prerequisites ?e (Dir []))"
    by code_simp
  have 3: "\<not> fst (testConversion ?e (after_prerequisites ?e (Dir [])))"
    by code_simp
  have 4: "fst (tester_run ?e (Dir [])) = 1"
    by code_simp
  have 5: "generateReport ?e (before_report ?e (Dir [])) \<noteq> None"
    by code_simp
  have 6: "generateReport ?e (before_report ?e blocked_project) = None"
    by code_simp
  from report_is_constant[of ?e "Dir []"] report_is_constant[of ?e blocked_project]
    1 2 3 4 5 6 show ?thesis
    by blast
qed

text \<open>
  The claim as it stands fails when the report cannot be written: with a directory at the
  path of the report no report file exists when the self-test has exited.
\<close>

theorem report_is_constant_counterexample:
  "isDirectory blocked_project reportPath
   \<and> generateReport (example_env no_tools) (before_report (example_env no_tools) blocked_project)
       = None
   \<and> fst (tester_run (example_env no_tools) blocked_project) = 1
   \<and> readFileSync (snd (tester_run (example_env no_tools) blocked_project)) reportPath = None
   \<and> isDirectory (snd (tester_run (example_env no_tools) blocked_project)) reportPath"
proof -
  let ?e = "example_env no_tools"
  have 1: "isDirectory blocked_project reportPath"
    by code_simp
  have 2: "generateReport ?e (before_report ?e blocked_project) = None"
    by code_simp
  have 3: "fst (tester_run ?e blocked_project) = 1"
    by code_simp
  have 4: "readFileSync (snd (tester_run ?e blocked_project)) reportPath = None"
    by code_simp
  have 5: "isDirectory (snd (tester_run ?e blocked_project)) reportPath"
    by code_simp
  from 1 2 3 4 5 show ?thesis
    by blast
qed

end
